theory Spec2Isabelle
  imports Main
begin

section \<open>Configuration: \<open>getEnvInt\<close> and the capacities of the three gates\<close>

text \<open>
  Go strings are byte sequences; they are modelled as \<open>string\<close> (a list of 8-bit
  characters). The process environment is a partial map from names to values, and
  \<open>os.Getenv\<close> answers the empty string for a name that is not set.
\<close>

type_synonym environ = "string \<rightharpoonup> string"

definition Getenv :: "environ \<Rightarrow> string \<Rightarrow> string" where
  "Getenv env key = (case env key of None \<Rightarrow> [] | Some v \<Rightarrow> v)"

text \<open>
  \<open>strings.TrimSpace\<close> removes the leading and the trailing white space runes of a
  string, white space as \<open>unicode.IsSpace\<close> has it. \<open>spaceRunes\<close> lists the UTF-8
  encodings of these runes: the six ASCII ones, U+0085, U+00A0, U+1680, U+2000 to
  U+200A, U+2028, U+2029, U+202F, U+205F and U+3000.
\<close>

definition spaceRunes :: "string list" where
  "spaceRunes =
    [[CHR 0x09], [CHR 0x0A], [CHR 0x0B], [CHR 0x0C], [CHR 0x0D], [CHR 0x20],
     [CHR 0xC2, CHR 0x85], [CHR 0xC2, CHR 0xA0],
     [CHR 0xE1, CHR 0x9A, CHR 0x80],
     [CHR 0xE2, CHR 0x80, CHR 0x80], [CHR 0xE2, CHR 0x80, CHR 0x81],
     [CHR 0xE2, CHR 0x80, CHR 0x82], [CHR 0xE2, CHR 0x80, CHR 0x83],
     [CHR 0xE2, CHR 0x80, CHR 0x84], [CHR 0xE2, CHR 0x80, CHR 0x85],
     [CHR 0xE2, CHR 0x80, CHR 0x86], [CHR 0xE2, CHR 0x80, CHR 0x87],
     [CHR 0xE2, CHR 0x80, CHR 0x88], [CHR 0xE2, CHR 0x80, CHR 0x89],
     [CHR 0xE2, CHR 0x80, CHR 0x8A],
     [CHR 0xE2, CHR 0x80, CHR 0xA8], [CHR 0xE2, CHR 0x80, CHR 0xA9],
     [CHR 0xE2, CHR 0x80, CHR 0xAF],
     [CHR 0xE2, CHR 0x81, CHR 0x9F],
     [CHR 0xE3, CHR 0x80, CHR 0x80]]"

text \<open>
  \<open>spaceWidth tab s\<close> is the number of bytes of the entry of \<open>tab\<close> that \<open>s\<close>
  starts with, and 0 when it starts with none.
\<close>

definition spaceWidth :: "string list \<Rightarrow> string \<Rightarrow> nat" where
  "spaceWidth tab s =
     (case find (\<lambda>e. take (length e) s = e) tab of None \<Rightarrow> 0 | Some e \<Rightarrow> length e)"

fun trimFront :: "string list \<Rightarrow> string \<Rightarrow> string" where
  "trimFront tab [] = []"
| "trimFront tab (c # cs) =
     (case spaceWidth tab (c # cs) of
        0 \<Rightarrow> c # cs
      | Suc n \<Rightarrow> trimFront tab (drop n cs))"

text \<open>
  The trailing runes are found from the end of the string, so the right trim is the
  left trim of the reversed string against the reversed encodings.
\<close>

definition TrimSpace :: "string \<Rightarrow> string" where
  "TrimSpace s = rev (trimFront (map rev spaceRunes) (rev (trimFront spaceRunes s)))"

text \<open>
  \<open>strconv.Atoi\<close>: an optional sign, then one or more decimal digits and nothing
  else; the value has to fit an \<open>int\<close> of \<open>bits\<close> bits (32 or 64, by the build
  target). \<open>None\<close> stands for the error it returns otherwise.
\<close>

definition isDigit :: "char \<Rightarrow> bool" where
  "isDigit c = (48 \<le> (of_char c :: nat) \<and> (of_char c :: nat) \<le> 57)"

fun digitsValue :: "nat \<Rightarrow> string \<Rightarrow> nat option" where
  "digitsValue n [] = Some n"
| "digitsValue n (c # cs) =
     (if isDigit c then digitsValue (n * 10 + (of_char c - 48)) cs else None)"

definition Atoi :: "nat \<Rightarrow> string \<Rightarrow> int option" where
  "Atoi bits s =
     (let neg = (s \<noteq> [] \<and> hd s = CHR ''-'');
          body = (if s \<noteq> [] \<and> (hd s = CHR ''-'' \<or> hd s = CHR ''+'') then tl s else s)
      in if body = [] then None
         else (case digitsValue 0 body of
                 None \<Rightarrow> None
               | Some n \<Rightarrow>
                   if neg then (if n \<le> 2 ^ (bits - 1) then Some (- int n) else None)
                   else (if n < 2 ^ (bits - 1) then Some (int n) else None)))"

definition getEnvInt :: "nat \<Rightarrow> environ \<Rightarrow> string \<Rightarrow> int \<Rightarrow> int" where
  "getEnvInt bits env key def =
     (let v = TrimSpace (Getenv env key)
      in if v = [] then def
         else (case Atoi bits v of
                 None \<Rightarrow> def
               | Some i \<Rightarrow> if i \<le> 0 then def else i))"

text \<open>
  The three gates are buffered channels; \<open>init\<close> fixes their capacities once, at
  start-up.
\<close>

record gates =
  semDNS :: int
  semICMP :: int
  semTCP :: int

definition init :: "nat \<Rightarrow> environ \<Rightarrow> gates" where
  "init bits env =
     \<lparr> semDNS = getEnvInt bits env ''MAX_DNS'' 4096,
       semICMP = getEnvInt bits env ''MAX_ICMP'' 8192,
       semTCP = getEnvInt bits env ''MAX_TCP'' 8192 \<rparr>"

text \<open>
  The decimal rendering of a natural number, as \<open>strconv.Itoa\<close> writes it; the
  reference the parsed value is compared with.
\<close>

fun decimal :: "nat \<Rightarrow> string" where
  "decimal n =
     (if n < 10 then [char_of (48 + n)]
      else decimal (n div 10) @ [char_of (48 + n mod 10)])"

declare decimal.simps [simp del]

text \<open>
  What the configuration contract calls numeric: an optional sign and then digits only,
  at least one.
\<close>

definition numericText :: "string \<Rightarrow> bool" where
  "numericText s =
     (let body = (if s \<noteq> [] \<and> (hd s = CHR ''-'' \<or> hd s = CHR ''+'') then tl s else s)
      in body \<noteq> [] \<and> list_all isDigit body)"


section \<open>Contexts and addresses\<close>

text \<open>
  Time is counted in milliseconds. Of a \<open>context.Context\<close> the model keeps what
  decides when its \<open>Done\<close> channel is closed: its deadline, if it has one, and the
  moment at which its owner cancels it, if that ever happens (for the context of an
  HTTP request, the moment the client goes away). \<open>context.WithTimeout\<close> reads the
  clock (\<open>now\<close>) and gives the child the earlier of the parent's deadline and
  \<open>now + d\<close>; a child is cancelled when its parent is. The cancel function that
  \<open>WithTimeout\<close> returns is deferred by each of its callers here, and so runs
  only when the caller has its result.
\<close>

record "context" =
  deadline :: "nat option"
  cancelled :: "nat option"

definition WithTimeout :: "context \<Rightarrow> nat \<Rightarrow> nat \<Rightarrow> context" where
  "WithTimeout parent now d =
     \<lparr> deadline = Some (case deadline parent of
                          None \<Rightarrow> now + d
                        | Some t \<Rightarrow> min t (now + d)),
       cancelled = cancelled parent \<rparr>"

text \<open>
  \<open>expired ctx t\<close>: the deadline of the context has passed at \<open>t\<close>.
  \<open>doneAt ctx\<close> is the moment from which \<open>ctx.Done()\<close> is closed, the earlier of
  the deadline and the cancellation, and \<open>isDone ctx t\<close> says that it is closed at
  \<open>t\<close>.
\<close>

definition expired :: "context \<Rightarrow> nat \<Rightarrow> bool" where
  "expired ctx t = (case deadline ctx of None \<Rightarrow> False | Some d \<Rightarrow> d \<le> t)"

definition doneAt :: "context \<Rightarrow> nat option" where
  "doneAt ctx =
     (case deadline ctx of
        None \<Rightarrow> cancelled ctx
      | Some d \<Rightarrow> (case cancelled ctx of None \<Rightarrow> Some d | Some c \<Rightarrow> Some (min d c)))"

definition isDone :: "context \<Rightarrow> nat \<Rightarrow> bool" where
  "isDone ctx t = (case doneAt ctx of None \<Rightarrow> False | Some d \<Rightarrow> d \<le> t)"

text \<open>
  A \<open>net.IP\<close> is a byte slice. \<open>To4\<close> answers the 4-byte form of an IPv4 address
  (given in 4 bytes, or in 16 bytes as an IPv4-mapped address) and nil otherwise.
\<close>

type_synonym ip = "nat list"

definition To4 :: "ip \<Rightarrow> ip option" where
  "To4 a =
     (if length a = 4 then Some a
      else if length a = 16 \<and> list_all (\<lambda>b. b = 0) (take 10 a)
              \<and> a ! 10 = 0xff \<and> a ! 11 = 0xff
      then Some (drop 12 a)
      else None)"

definition getProto :: "ip \<Rightarrow> nat" where
  "getProto a = (if To4 a \<noteq> None then 1 else 58)"

section \<open>The ICMP prober: \<open>doICMP\<close>\<close>

text \<open>
  An \<open>icmp.Type\<close> is an interface value: an \<open>ipv4.ICMPType\<close> or an
  \<open>ipv6.ICMPType\<close>. Two such values are equal when both the dynamic type and the
  number agree, which is the equality of this datatype.
\<close>

datatype icmp_type = ICMPv4Type nat | ICMPv6Type nat

definition ipv4_ICMPTypeEcho :: icmp_type where
  "ipv4_ICMPTypeEcho = ICMPv4Type 8"

definition ipv4_ICMPTypeEchoReply :: icmp_type where
  "ipv4_ICMPTypeEchoReply = ICMPv4Type 0"

definition ipv6_ICMPTypeEchoRequest :: icmp_type where
  "ipv6_ICMPTypeEchoRequest = ICMPv6Type 128"

definition ipv6_ICMPTypeEchoReply :: icmp_type where
  "ipv6_ICMPTypeEchoReply = ICMPv6Type 129"

record icmp_message =
  msg_type :: icmp_type
  msg_code :: nat
  echo_id :: nat
  echo_seq :: nat
  echo_data :: string

datatype read_error = NetTimeout | DeadlineExceeded | OtherReadError

datatype read_result = Packet "nat list" | ReadError read_error

text \<open>
  What the host and the network answer to one call of \<open>doICMP\<close>: whether the raw
  socket opens, the bytes of the marshalled request (or none, on error), whether the
  send goes through, the process id, and for each turn of the read loop whether
  \<open>ctx.Done()\<close> is closed at the \<open>select\<close> and what \<open>ReadFrom\<close> returns.
  \<open>parse_body\<close> stands for the per-type body parsers of \<open>icmp.ParseMessage\<close>.
\<close>

record icmp_net =
  ListenPacket :: "string \<Rightarrow> string \<Rightarrow> bool"
  Marshal :: "icmp_message \<Rightarrow> nat list option"
  WriteTo :: "nat list \<Rightarrow> ip \<Rightarrow> bool"
  Getpid :: nat
  ReadFrom :: "(bool \<times> read_result) list"
  parse_body :: "icmp_type \<Rightarrow> nat list \<Rightarrow> bool"

text \<open>
  \<open>icmp.ParseMessage proto b\<close>, of the library \<open>golang.org/x/net/icmp\<close>: a
  message shorter than its 4-byte header is an error; the type is the first byte, read
  as an ICMPv4 type for protocol 1 and as an ICMPv6 type for protocol 58, any other
  protocol being an error; then the body has to parse, which is left to \<open>body_ok\<close>.
\<close>

definition ParseMessage ::
  "(icmp_type \<Rightarrow> nat list \<Rightarrow> bool) \<Rightarrow> nat \<Rightarrow> nat list \<Rightarrow> icmp_type option" where
  "ParseMessage body_ok proto b =
     (if length b < 4 then None
      else if proto = 1 then
        (if body_ok (ICMPv4Type (b ! 0)) (drop 4 b) then Some (ICMPv4Type (b ! 0)) else None)
      else if proto = 58 then
        (if body_ok (ICMPv6Type (b ! 0)) (drop 4 b) then Some (ICMPv6Type (b ! 0)) else None)
      else None)"

text \<open>
  The read loop of \<open>doICMP\<close>, one turn for each element of the list. The result is
  \<open>Some\<close> of the boolean returned, and \<open>None\<close> when the call never returns: with
  nothing left to read, \<open>ReadFrom\<close> fails at the socket's deadline if one was set,
  and waits for ever otherwise. The three tests of a read error are the source's; all
  of them return false.
\<close>

fun readLoop ::
  "bool \<Rightarrow> (icmp_type \<Rightarrow> nat list \<Rightarrow> bool) \<Rightarrow> ip \<Rightarrow> (bool \<times> read_result) list
     \<Rightarrow> bool option" where
  "readLoop has_deadline body_ok a [] = (if has_deadline then Some False else None)"
| "readLoop has_deadline body_ok a ((ctx_done, r) # rest) =
     (if ctx_done then Some False
      else (case r of
              ReadError e \<Rightarrow>
                (if e = NetTimeout then Some False
                 else if e = DeadlineExceeded then Some False
                 else Some False)
            | Packet b \<Rightarrow>
                (case ParseMessage body_ok (getProto a) b of
                   Some t \<Rightarrow>
                     if t = ipv4_ICMPTypeEchoReply \<or> t = ipv6_ICMPTypeEchoReply then Some True
                     else readLoop has_deadline body_ok a rest
                 | None \<Rightarrow> readLoop has_deadline body_ok a rest)))"

text \<open>
  The number of calls of \<open>ReadFrom\<close> the loop makes before it returns or runs out of
  turns: none in a turn that finds the context done, and one in every other turn up to
  the one that returns.
\<close>

fun readsMade ::
  "(icmp_type \<Rightarrow> nat list \<Rightarrow> bool) \<Rightarrow> ip \<Rightarrow> (bool \<times> read_result) list \<Rightarrow> nat" where
  "readsMade body_ok a [] = 0"
| "readsMade body_ok a ((ctx_done, r) # rest) =
     (if ctx_done then 0
      else (case r of
              ReadError e \<Rightarrow> 1
            | Packet b \<Rightarrow>
                (case ParseMessage body_ok (getProto a) b of
                   Some t \<Rightarrow>
                     if t = ipv4_ICMPTypeEchoReply \<or> t = ipv6_ICMPTypeEchoReply then 1
                     else Suc (readsMade body_ok a rest)
                 | None \<Rightarrow> Suc (readsMade body_ok a rest))))"

text \<open>
  \<open>doICMP\<close> opens the socket, marshals the echo request and sends it, each failure
  returning false, and then reads. The socket gets a deadline only when the context
  has one; the error of \<open>SetDeadline\<close> is discarded by the source, and the model
  takes the deadline to be set.
\<close>

definition doICMP :: "icmp_net \<Rightarrow> context \<Rightarrow> ip \<Rightarrow> bool option" where
  "doICMP net ctx a =
     (let (network, laddr, icmpType) =
            (if To4 a \<noteq> None then (''ip4:icmp'', ''0.0.0.0'', ipv4_ICMPTypeEcho)
             else (''ip6:ipv6-icmp'', ''::'', ipv6_ICMPTypeEchoRequest))
      in if \<not> ListenPacket net network laddr then Some False
         else (case Marshal net \<lparr> msg_type = icmpType, msg_code = 0,
                                   echo_id = Getpid net mod 65536, echo_seq = 1,
                                   echo_data = ''ping'' \<rparr> of
                 None \<Rightarrow> Some False
               | Some b \<Rightarrow>
                   if \<not> WriteTo net b a then Some False
                   else readLoop (deadline ctx \<noteq> None) (parse_body net) a (ReadFrom net)))"


section \<open>The TCP prober\<close>

text \<open>
  \<open>dial_fate\<close> is what the network would do with a connection attempt, and after
  how many milliseconds: complete the handshake, fail it, or never answer.
  \<open>DialContext timeout ctx now fate\<close> is \<open>net.Dialer{Timeout: timeout}.DialContext\<close>
  called at \<open>now\<close>: the dial is given up at \<open>dialLimit\<close>, the earliest of
  \<open>now + timeout\<close>, the deadline of the context and its cancellation, with the error
  of a cancelled dial when it is the cancellation that ends it and of a timeout
  otherwise. The result is the error, \<open>None\<close> for a connection.
\<close>

datatype dial_error =
  ConnectionRefused | HostUnreachable | NetworkUnreachable | IOTimeout | Canceled | OtherDialError

datatype dial_fate = Established nat | Aborted dial_error nat | NoAnswer

definition dialLimit :: "nat \<Rightarrow> context \<Rightarrow> nat \<Rightarrow> nat" where
  "dialLimit timeout ctx now =
     (case doneAt ctx of None \<Rightarrow> now + timeout | Some t \<Rightarrow> min t (now + timeout))"

definition dialGivenUp :: "nat \<Rightarrow> context \<Rightarrow> nat \<Rightarrow> dial_error" where
  "dialGivenUp timeout ctx now =
     (if cancelled ctx = Some (dialLimit timeout ctx now) then Canceled else IOTimeout)"

definition DialContext :: "nat \<Rightarrow> context \<Rightarrow> nat \<Rightarrow> dial_fate \<Rightarrow> dial_error option" where
  "DialContext timeout ctx now fate =
     (case fate of
        Established d \<Rightarrow>
          if now + d < dialLimit timeout ctx now then None
          else Some (dialGivenUp timeout ctx now)
      | Aborted e d \<Rightarrow>
          if now + d < dialLimit timeout ctx now then Some e
          else Some (dialGivenUp timeout ctx now)
      | NoAnswer \<Rightarrow> Some (dialGivenUp timeout ctx now))"

section \<open>The world of one request, and what a request does in it\<close>

datatype gate = DNS | ICMP | TCP

text \<open>
  The goroutines of a request that wait at a gate: the lookup for one network, the
  echo probe of the \<open>i\<close>-th address of a list, the connection to the \<open>i\<close>-th
  address and a port. The echo probe of a literal address, which waits at no gate, is
  \<open>Echo 0\<close> of that address.
\<close>

datatype attempt = Resolve string | Echo nat ip | Connect nat ip string

datatype stage_kind = EchoStage | ConnectStage | PingStage

text \<open>
  Everything outside the program: the parser of literal addresses (\<open>net.ParseIP\<close>),
  the resolver (the addresses \<open>LookupIP\<close> returns for a network and a host, none on
  an error), whether \<open>acquire\<close> returns true to a goroutine (\<open>admit\<close>), the host
  and the network as each echo probe meets them (\<open>net_of\<close>), the fate of each dial,
  the outcome of a command that is left to run to its end (\<open>Run\<close>, true when it ends
  without error), and \<open>runtime.GOOS\<close>.

  The world also has the clock. \<open>stage_at\<close> is its reading when a stage of a family
  starts, \<open>probe_at\<close> and \<open>dial_at\<close> when an echo probe and a dial start;
  \<open>read_wait k i\<close> is how long the \<open>i\<close>-th \<open>ReadFrom\<close> of the probe of
  \<open>k\<close> waits before it returns, and \<open>run_time\<close> how long a command runs.
  In the turns of \<open>net_of\<close> the flag says that \<open>Done\<close> is found closed for a
  reason the context does not show, which for an attempt of \<open>raceEcho\<close> is that the
  race has returned and cancelled \<open>ctx2\<close>. \<open>wins_tie\<close> decides for the
  \<open>select\<close> of a race, when the value of an attempt and the closing of \<open>Done\<close>
  come in the same millisecond, whether the value is taken. A theorem that holds in
  every world holds in the real one.
\<close>

record world =
  ParseIP :: "string \<Rightarrow> ip option"
  LookupIP :: "string \<Rightarrow> string \<Rightarrow> ip list"
  admit :: "attempt \<Rightarrow> bool"
  net_of :: "attempt \<Rightarrow> icmp_net"
  probe_at :: "attempt \<Rightarrow> nat"
  read_wait :: "attempt \<Rightarrow> nat \<Rightarrow> nat"
  dial_at :: "attempt \<Rightarrow> nat"
  fate_of :: "attempt \<Rightarrow> dial_fate"
  wins_tie :: "attempt \<Rightarrow> bool"
  stage_at :: "stage_kind \<Rightarrow> string \<Rightarrow> nat"
  Run :: "string list \<Rightarrow> bool"
  run_time :: "string list \<Rightarrow> nat"
  GOOS :: string

text \<open>
  The socket of an echo probe under a context. \<open>doICMP\<close> gives the socket the
  deadline of the context, so the send fails when the deadline has passed, and a
  \<open>ReadFrom\<close> that would return at or after the deadline fails with a timeout
  instead. The \<open>select\<close> before the \<open>i\<close>-th read finds \<open>Done\<close> closed when
  the context is done at that moment, that is when the reads before it have returned.
  \<open>readAt w k i\<close> is the clock when \<open>i\<close> reads have returned, and
  \<open>stamp\<close> makes of the \<open>i\<close>-th turn of the world the turn the probe sees.
\<close>

definition readAt :: "world \<Rightarrow> attempt \<Rightarrow> nat \<Rightarrow> nat" where
  "readAt w k i = probe_at w k + sum_list (map (read_wait w k) [0..<i])"

definition stamp ::
  "world \<Rightarrow> context \<Rightarrow> attempt \<Rightarrow> nat \<times> bool \<times> read_result \<Rightarrow> bool \<times> read_result" where
  "stamp w ctx k = (\<lambda>(i, (ctx_done, r)).
     (ctx_done \<or> isDone ctx (readAt w k i),
      if expired ctx (readAt w k (Suc i)) then ReadError NetTimeout else r))"

definition socket :: "world \<Rightarrow> context \<Rightarrow> attempt \<Rightarrow> icmp_net" where
  "socket w ctx k =
     (net_of w k)
       \<lparr> WriteTo := (\<lambda>b a. WriteTo (net_of w k) b a \<and> \<not> expired ctx (probe_at w k)),
         ReadFrom := map (stamp w ctx k) (enumerate 0 (ReadFrom (net_of w k))) \<rparr>"

text \<open>The clock when the probe of \<open>k\<close> returns from its read loop.\<close>

definition probeEnd :: "world \<Rightarrow> context \<Rightarrow> attempt \<Rightarrow> ip \<Rightarrow> nat" where
  "probeEnd w ctx k a =
     readAt w k (readsMade (parse_body (net_of w k)) a (ReadFrom (socket w ctx k)))"

text \<open>
  What a goroutine does, in order: the gate operations, and each probe with its outcome.
\<close>

datatype action =
    Acquired gate
  | Refused gate
  | Released gate
  | Lookup string string
  | EchoProbe ip "bool option"
  | Dial string ip string "dial_error option"
  | Close
  | Exec "string list" bool

text \<open>
  A stage as it ran: its kind, the actions of each of its concurrent attempts, and the
  boolean it returned.
\<close>

datatype stage = Stage (kind: stage_kind) (attempts: "action list list") (verdict: bool)

record trace =
  resolver :: "action list list"
  v4_stages :: "stage list"
  v6_stages :: "stage list"

record pingResult =
  IPv4 :: string
  IPv6 :: string

fun succeeded :: "action \<Rightarrow> bool" where
  "succeeded (EchoProbe a r) = (r = Some True)"
| "succeeded (Dial n a p e) = (e = None)"
| "succeeded (Exec args r) = r"
| "succeeded _ = False"

text \<open>
  The \<open>select\<close> that ends a race:
  \<^verbatim>\<open>select { case <-done: return true; case <-ctx2.Done(): return false }\<close>.
  \<open>sends\<close> lists the attempts that send on \<open>done\<close> and the clock when each does.
  The race returns true when a value is there before \<open>Done\<close> is closed, or in the
  same millisecond if the \<open>select\<close> then takes the value; with no value in time it
  returns false when \<open>Done\<close> closes.
\<close>

definition selectDone :: "world \<Rightarrow> context \<Rightarrow> (attempt \<times> nat) list \<Rightarrow> bool" where
  "selectDone w ctx2 sends =
     list_ex (\<lambda>(k, t). \<not> isDone ctx2 t \<or> (doneAt ctx2 = Some t \<and> wins_tie w k)) sends"

text \<open>
  The goroutine that \<open>raceEcho\<close> starts for the \<open>i\<close>-th address: it returns at
  once when \<open>acquire\<close> fails, and otherwise probes and releases the slot when the
  probe returns. The boolean is whether it sends on \<open>done\<close>, which it does as the
  probe returns true.
\<close>

definition echoAttempt :: "world \<Rightarrow> context \<Rightarrow> nat \<times> ip \<Rightarrow> bool \<times> action list" where
  "echoAttempt w ctx2 = (\<lambda>(i, a).
     if \<not> admit w (Echo i a) then (False, [Refused ICMP])
     else (case doICMP (socket w ctx2 (Echo i a)) ctx2 a of
             None \<Rightarrow> (False, [Acquired ICMP, EchoProbe a None])
           | Some b \<Rightarrow> (b, [Acquired ICMP, EchoProbe a (Some b), Released ICMP])))"

text \<open>
  \<open>raceEcho\<close> starts one goroutine for each address and waits in the \<open>select\<close>.
  \<open>now\<close> is the clock as \<open>context.WithTimeout\<close> reads it.
\<close>

definition raceEcho :: "world \<Rightarrow> context \<Rightarrow> nat \<Rightarrow> ip list \<Rightarrow> bool \<times> action list list" where
  "raceEcho w ctx now ips =
     (let ctx2 = WithTimeout ctx now 2200;
          runs = map (echoAttempt w ctx2) (enumerate 0 ips);
          sends = map (\<lambda>(i, a). (Echo i a, probeEnd w ctx2 (Echo i a) a))
                    (filter (\<lambda>ia. fst (echoAttempt w ctx2 ia)) (enumerate 0 ips))
      in (selectDone w ctx2 sends, map snd runs))"

text \<open>
  The goroutine that \<open>tcpConnectRace\<close> starts for an address and a port: it dials
  with a timeout of 1200 ms under \<open>ctx2\<close>, closes the connection if it got one and
  sends on \<open>done\<close>, and releases the slot. \<open>tcpConnectRace\<close> starts one for each
  address and each port and waits as \<open>raceEcho\<close> does. The pair of the address and
  the port stands for the string \<open>net.JoinHostPort\<close> makes of them.
  \<open>connectedAt\<close> is the clock when the dial of an attempt has its answer.
\<close>

definition connectAttempt ::
  "world \<Rightarrow> context \<Rightarrow> string \<Rightarrow> nat \<times> ip \<Rightarrow> string \<Rightarrow> bool \<times> action list" where
  "connectAttempt w ctx2 dialNet = (\<lambda>(i, a) p.
     if \<not> admit w (Connect i a p) then (False, [Refused TCP])
     else (case DialContext 1200 ctx2 (dial_at w (Connect i a p)) (fate_of w (Connect i a p)) of
             None \<Rightarrow> (True, [Acquired TCP, Dial dialNet a p None, Close, Released TCP])
           | Some e \<Rightarrow> (False, [Acquired TCP, Dial dialNet a p (Some e), Released TCP])))"

definition connectedAt :: "world \<Rightarrow> attempt \<Rightarrow> nat" where
  "connectedAt w k =
     dial_at w k + (case fate_of w k of Established d \<Rightarrow> d | Aborted e d \<Rightarrow> d | NoAnswer \<Rightarrow> 0)"

definition tcpConnectRace ::
  "world \<Rightarrow> context \<Rightarrow> nat \<Rightarrow> ip list \<Rightarrow> string \<Rightarrow> string list \<Rightarrow> bool \<times> action list list" where
  "tcpConnectRace w ctx now ips family ports =
     (let ctx2 = WithTimeout ctx now 2200;
          dialNet = (if family = ''6'' then ''tcp6'' else ''tcp4'');
          runs = concat (map (\<lambda>ia. map (connectAttempt w ctx2 dialNet ia) ports) (enumerate 0 ips));
          sends = concat (map (\<lambda>(i, a).
                                 map (\<lambda>p. (Connect i a p, connectedAt w (Connect i a p)))
                                   (filter (\<lambda>p. fst (connectAttempt w ctx2 dialNet (i, a) p)) ports))
                            (enumerate 0 ips))
      in (selectDone w ctx2 sends, map snd runs))"

text \<open>
  \<open>pingWithFamily\<close> builds the command line of the system's \<open>ping\<close> for the
  host's operating system (\<open>pingCommand\<close>) and runs it under the context
  (\<open>exec.CommandContext\<close>): a command that is still running when the context is
  done is killed, and one that would start under a context already done is not
  started. The result is whether it ran without error. \<open>pingEnd\<close> is the clock
  when the command ends if it is left to run.
\<close>

definition pingCommand :: "world \<Rightarrow> string \<Rightarrow> string \<Rightarrow> string list" where
  "pingCommand w host family =
     ''ping'' #
       (if GOOS w = ''windows''
        then (if family = ''4'' then [''-4''] else [''-6''])
             @ [''-n'', ''1'', ''-w'', ''1500''] @ [host]
        else (if family = ''4'' then [''-4''] else [''-6''])
             @ [''-c'', ''1''] @ [''-W'', ''1'', host])"

definition pingEnd :: "world \<Rightarrow> string \<Rightarrow> string \<Rightarrow> nat" where
  "pingEnd w host family =
     stage_at w PingStage family + run_time w (pingCommand w host family)"

definition pingWithFamily :: "world \<Rightarrow> context \<Rightarrow> string \<Rightarrow> string \<Rightarrow> bool \<times> action list" where
  "pingWithFamily w ctx host family =
     (let cmd = pingCommand w host family;
          ok = (Run w cmd \<and> \<not> isDone ctx (pingEnd w host family))
      in (ok, [Exec cmd ok]))"

text \<open>
  The goroutine of one family for a domain (\<open>raceEcho || tcpConnectRace ||
  pingWithFamily\<close>): a stage is evaluated only when the one before it returned false.
\<close>

definition familyGoroutine ::
  "world \<Rightarrow> context \<Rightarrow> string \<Rightarrow> string \<Rightarrow> ip list \<Rightarrow> string list \<Rightarrow> bool \<times> stage list" where
  "familyGoroutine w ctx input family ips ports =
     (let (r1, l1) = raceEcho w ctx (stage_at w EchoStage family) ips
      in if r1 then (True, [Stage EchoStage l1 True])
         else
           (let (r2, l2) = tcpConnectRace w ctx (stage_at w ConnectStage family) ips family ports
            in if r2 then (True, [Stage EchoStage l1 False, Stage ConnectStage l2 True])
               else
                 (let (r3, l3) = pingWithFamily w ctx input family
                  in (r3, [Stage EchoStage l1 False, Stage ConnectStage l2 False,
                           Stage PingStage [l3] r3]))))"

text \<open>
  The goroutine of a literal address (\<open>doICMP || pingWithFamily\<close>). It ends only if
  \<open>doICMP\<close> returns.
\<close>

definition literalGoroutine ::
  "world \<Rightarrow> context \<Rightarrow> ip \<Rightarrow> string \<Rightarrow> string \<Rightarrow> (bool \<times> stage list) option" where
  "literalGoroutine w ctx parsed input family =
     (case doICMP (socket w ctx (Echo 0 parsed)) ctx parsed of
        None \<Rightarrow> None
      | Some r1 \<Rightarrow>
          if r1 then Some (True, [Stage EchoStage [[EchoProbe parsed (Some True)]] True])
          else
            (let (r3, l3) = pingWithFamily w ctx input family
             in Some (r3, [Stage EchoStage [[EchoProbe parsed (Some False)]] False,
                           Stage PingStage [l3] r3])))"

text \<open>The goroutine that resolves one network: the addresses it leaves, and what it did.\<close>

definition lookupGoroutine :: "world \<Rightarrow> string \<Rightarrow> string \<Rightarrow> ip list \<times> action list" where
  "lookupGoroutine w network input =
     (if \<not> admit w (Resolve network) then ([], [Refused DNS])
      else (LookupIP w network input, [Acquired DNS, Lookup network input, Released DNS]))"

text \<open>
  \<open>detectAndPing\<close>. Both fields start as \<open>no\<close>; a goroutine that finds its
  family reachable sets the family's flag, and the field of a set flag becomes
  \<open>ok\<close> (\<open>okno\<close>). A literal address is probed in its own family and the function
  returns; for a domain the two lookups run first and then one goroutine for each
  family that has addresses. \<open>now\<close> is the clock as \<open>context.WithTimeout\<close> reads
  it. The result comes with the trace of what was done, and is \<open>None\<close> when the
  function never returns.
\<close>

definition okno :: "bool \<Rightarrow> string" where
  "okno b = (if b then ''ok'' else ''no'')"

definition detectAndPing :: "world \<Rightarrow> context \<Rightarrow> nat \<Rightarrow> string \<Rightarrow> (pingResult \<times> trace) option" where
  "detectAndPing w parent now input =
     (let ctx = WithTimeout parent now 5000
      in case ParseIP w input of
           Some parsed \<Rightarrow>
             (if To4 parsed \<noteq> None then
                (case literalGoroutine w ctx parsed input ''4'' of
                   None \<Rightarrow> None
                 | Some (v4ok, st) \<Rightarrow>
                     Some (\<lparr> IPv4 = okno v4ok, IPv6 = ''no'' \<rparr>,
                           \<lparr> resolver = [], v4_stages = st, v6_stages = [] \<rparr>))
              else
                (case literalGoroutine w ctx parsed input ''6'' of
                   None \<Rightarrow> None
                 | Some (v6ok, st) \<Rightarrow>
                     Some (\<lparr> IPv4 = ''no'', IPv6 = okno v6ok \<rparr>,
                           \<lparr> resolver = [], v4_stages = [], v6_stages = st \<rparr>)))
         | None \<Rightarrow>
             (let (v4, d4) = lookupGoroutine w ''ip4'' input;
                  (v6, d6) = lookupGoroutine w ''ip6'' input;
                  ports = [''443'', ''80''];
                  (v4ok, s4) = (if v4 \<noteq> [] then familyGoroutine w ctx input ''4'' v4 ports
                                else (False, []));
                  (v6ok, s6) = (if v6 \<noteq> [] then familyGoroutine w ctx input ''6'' v6 ports
                                else (False, []))
              in Some (\<lparr> IPv4 = okno v4ok, IPv6 = okno v6ok \<rparr>,
                       \<lparr> resolver = [d4, d6], v4_stages = s4, v6_stages = s6 \<rparr>)))"


section \<open>A gate and the goroutines that use it\<close>

text \<open>
  A gate is a buffered channel of a fixed capacity; \<open>n\<close> is the number of values in
  its buffer. \<open>acquire\<close> is a \<open>select\<close> of two cases: the send, which can be taken
  only while the buffer has room, and \<open>ctx.Done()\<close>. \<open>None\<close> says that the case
  cannot be taken and the goroutine keeps waiting. \<open>release\<close> receives one value,
  which blocks on an empty buffer.
\<close>

datatype select_case = SendCase | DoneCase

definition acquire :: "nat \<Rightarrow> select_case \<Rightarrow> nat \<Rightarrow> (bool \<times> nat) option" where
  "acquire cap c n =
     (case c of
        SendCase \<Rightarrow> if n < cap then Some (True, Suc n) else None
      | DoneCase \<Rightarrow> Some (False, n))"

definition release :: "nat \<Rightarrow> nat option" where
  "release n = (if n = 0 then None else Some (n - 1))"

text \<open>
  Every goroutine that uses a gate has the same shape:
  \<^verbatim>\<open>if !acquire(ctx, sem) { return }; defer release(sem); body\<close>.
  It waits in \<open>acquire\<close>, then holds a slot while its body runs, then has returned;
  the deferred \<open>release\<close> runs when the body ends, however it ends. The counters
  record how often the goroutine acquired and released.
\<close>

datatype pc = Waiting | Holding | Returned

datatype ending = ProbeSucceeded | ProbeFailed | DeadlineCancelled

record goroutine =
  at :: pc
  acquires :: nat
  releases :: nat

record gate_state =
  buffered :: nat
  goroutines :: "goroutine list"

datatype event = Select nat select_case | BodyEnds nat ending

definition step :: "nat \<Rightarrow> gate_state \<Rightarrow> event \<Rightarrow> gate_state option" where
  "step cap s ev =
     (case ev of
        Select i c \<Rightarrow>
          if i < length (goroutines s) \<and> at (goroutines s ! i) = Waiting then
            (case acquire cap c (buffered s) of
               None \<Rightarrow> None
             | Some (got, n) \<Rightarrow>
                 if got then
                   Some \<lparr> buffered = n,
                          goroutines = (goroutines s)
                            [i := (goroutines s ! i)
                               \<lparr> at := Holding, acquires := Suc (acquires (goroutines s ! i)) \<rparr>] \<rparr>
                 else
                   Some \<lparr> buffered = n,
                          goroutines = (goroutines s)[i := (goroutines s ! i) \<lparr> at := Returned \<rparr>] \<rparr>)
          else None
      | BodyEnds i e \<Rightarrow>
          if i < length (goroutines s) \<and> at (goroutines s ! i) = Holding then
            (case release (buffered s) of
               None \<Rightarrow> None
             | Some n \<Rightarrow>
                 Some \<lparr> buffered = n,
                        goroutines = (goroutines s)
                          [i := (goroutines s ! i)
                             \<lparr> at := Returned, releases := Suc (releases (goroutines s ! i)) \<rparr>] \<rparr>)
          else None)"

fun run :: "nat \<Rightarrow> gate_state \<Rightarrow> event list \<Rightarrow> gate_state option" where
  "run cap s [] = Some s"
| "run cap s (ev # evs) = (case step cap s ev of None \<Rightarrow> None | Some s' \<Rightarrow> run cap s' evs)"

definition start :: "nat \<Rightarrow> gate_state" where
  "start k = \<lparr> buffered = 0,
               goroutines = replicate k \<lparr> at = Waiting, acquires = 0, releases = 0 \<rparr> \<rparr>"

definition holding :: "gate_state \<Rightarrow> nat" where
  "holding s = length (filter (\<lambda>g. at g = Holding) (goroutines s))"

text \<open>
  The accounting of one goroutine: it acquires at most once, has released nothing
  while it holds the slot, and has released exactly what it acquired once it returned.
\<close>

definition balanced :: "goroutine \<Rightarrow> bool" where
  "balanced g =
     (case at g of
        Waiting \<Rightarrow> acquires g = 0 \<and> releases g = 0
      | Holding \<Rightarrow> acquires g = 1 \<and> releases g = 0
      | Returned \<Rightarrow> acquires g \<le> 1 \<and> releases g = acquires g)"

section \<open>Notions used to state the properties\<close>

text \<open>
  The values \<open>doICMP\<close> computes from the address before it touches the network, the
  echo reply type of the address's own protocol, and the turns of the read loop that
  end in a discarded packet.
\<close>

definition icmpNetwork :: "ip \<Rightarrow> string" where
  "icmpNetwork a = (if To4 a \<noteq> None then ''ip4:icmp'' else ''ip6:ipv6-icmp'')"

definition icmpLaddr :: "ip \<Rightarrow> string" where
  "icmpLaddr a = (if To4 a \<noteq> None then ''0.0.0.0'' else ''::'')"

definition echoRequest :: "icmp_net \<Rightarrow> ip \<Rightarrow> icmp_message" where
  "echoRequest net a =
     \<lparr> msg_type = (if To4 a \<noteq> None then ipv4_ICMPTypeEcho else ipv6_ICMPTypeEchoRequest),
       msg_code = 0, echo_id = Getpid net mod 65536, echo_seq = 1, echo_data = ''ping'' \<rparr>"

definition echoReplyFor :: "ip \<Rightarrow> icmp_type" where
  "echoReplyFor a = (if To4 a \<noteq> None then ipv4_ICMPTypeEchoReply else ipv6_ICMPTypeEchoReply)"

definition discarded :: "(icmp_type \<Rightarrow> nat list \<Rightarrow> bool) \<Rightarrow> ip \<Rightarrow> bool \<times> read_result \<Rightarrow> bool" where
  "discarded body_ok a turn =
     (case turn of
        (ctx_done, Packet b) \<Rightarrow>
          \<not> ctx_done \<and> ParseMessage body_ok (getProto a) b \<noteq> Some (echoReplyFor a)
      | (ctx_done, ReadError e) \<Rightarrow> False)"


text \<open>
  The invariant of a gate: the buffer holds one value for each goroutine that holds a
  slot, never more than the capacity, every goroutine is balanced, and over all
  goroutines the acquisitions are the releases plus the values in the buffer.
\<close>

definition gate_inv :: "nat \<Rightarrow> gate_state \<Rightarrow> bool" where
  "gate_inv cap s =
     (buffered s = holding s \<and> buffered s \<le> cap \<and> list_all balanced (goroutines s)
      \<and> sum_list (map acquires (goroutines s)) = sum_list (map releases (goroutines s)) + buffered s)"


text \<open>
  The actions of a goroutine keep to the scope of a slot of gate \<open>g\<close> when the
  goroutine was refused and did nothing else, or acquired first, released last, and
  did not touch the gate in between.
\<close>

definition slot_scoped :: "gate \<Rightarrow> action list \<Rightarrow> bool" where
  "slot_scoped g l =
     (l = [Refused g]
      \<or> (2 \<le> length l \<and> hd l = Acquired g \<and> last l = Released g
          \<and> list_all (\<lambda>x. x \<notin> {Acquired g, Refused g, Released g}) (butlast (tl l))))"

text \<open>
  Two networks for examples. On the quiet one the socket opens and the request is
  sent, and nothing ever arrives. On the answering one two packets arrive: one whose
  type byte is 129, then an ICMPv4 echo reply.
\<close>

definition quiet_net :: icmp_net where
  "quiet_net =
     \<lparr> ListenPacket = (\<lambda>network laddr. True),
       Marshal = (\<lambda>m. Some [8, 0, 0, 0, 0, 0, 0, 1, 112, 105, 110, 103]),
       WriteTo = (\<lambda>b a. True),
       Getpid = 4242,
       ReadFrom = [],
       parse_body = (\<lambda>t b. 4 \<le> length b) \<rparr>"

definition answering_net :: icmp_net where
  "answering_net =
     quiet_net \<lparr> ReadFrom :=
       [(False, Packet [129, 0, 0, 0, 0, 0, 0, 1]),
        (False, Packet [0, 0, 0, 0, 0, 0, 0, 1, 112, 105, 110, 103])] \<rparr>"

text \<open>
  A host for examples: it may not open raw sockets, its \<open>ping\<close> fails after a
  second, its gates always have room, and of the two ports only 443 accepts a
  connection, after 30 ms. Every stage starts at 0; a probe and a dial start 10 ms
  later, and a read waits 20 ms. It knows two literal addresses and resolves
  \<open>example.com\<close> to one address of each family.
\<close>

definition tcp_only_world :: world where
  "tcp_only_world =
     \<lparr> ParseIP = (\<lambda>s. if s = ''192.0.2.1'' then Some [192, 0, 2, 1]
                        else if s = ''2001:db8::1''
                        then Some [32, 1, 13, 184, 0, 0, 0, 0, 0, 0, 0, 0, 0, 0, 0, 1]
                        else None),
       LookupIP = (\<lambda>network host.
                     if host = ''example.com''
                     then (if network = ''ip4'' then [[192, 0, 2, 1]]
                           else [[32, 1, 13, 184, 0, 0, 0, 0, 0, 0, 0, 0, 0, 0, 0, 1]])
                     else []),
       admit = (\<lambda>k. True),
       net_of = (\<lambda>k. quiet_net \<lparr> ListenPacket := (\<lambda>network laddr. False) \<rparr>),
       probe_at = (\<lambda>k. 10),
       read_wait = (\<lambda>k i. 20),
       dial_at = (\<lambda>k. 10),
       fate_of = (\<lambda>k. case k of
                          Connect i a p \<Rightarrow>
                            if p = ''443'' then Established 30 else Aborted ConnectionRefused 5
                        | _ \<Rightarrow> NoAnswer),
       wins_tie = (\<lambda>k. False),
       stage_at = (\<lambda>kind family. 0),
       Run = (\<lambda>args. False),
       run_time = (\<lambda>args. 1000),
       GOOS = ''linux'' \<rparr>"

text \<open>
  Reading a trace: the actions of a stage and of a whole request, whether some probe
  of a list of stages succeeded, the actions that touch the DNS gate or the resolver,
  the address a probe is aimed at, and whether every echo probe of a goroutine comes
  right after that goroutine acquired a slot of the ICMP gate.
\<close>

definition stage_actions :: "stage \<Rightarrow> action list" where
  "stage_actions st = concat (attempts st)"

definition trace_actions :: "trace \<Rightarrow> action list" where
  "trace_actions tr =
     concat (resolver tr) @ concat (map stage_actions (v4_stages tr @ v6_stages tr))"

definition probe_succeeded :: "stage list \<Rightarrow> bool" where
  "probe_succeeded sts = list_ex (\<lambda>st. list_ex succeeded (stage_actions st)) sts"

fun uses_dns :: "action \<Rightarrow> bool" where
  "uses_dns (Acquired g) = (g = DNS)"
| "uses_dns (Refused g) = (g = DNS)"
| "uses_dns (Released g) = (g = DNS)"
| "uses_dns (Lookup network host) = True"
| "uses_dns _ = False"

fun targets :: "action \<Rightarrow> ip list" where
  "targets (EchoProbe a r) = [a]"
| "targets (Dial n a p e) = [a]"
| "targets _ = []"

fun gated_echo :: "action list \<Rightarrow> bool" where
  "gated_echo [] = True"
| "gated_echo (Acquired g # EchoProbe a r # rest) = (g = ICMP \<and> gated_echo rest)"
| "gated_echo (EchoProbe a r # rest) = False"
| "gated_echo (x # rest) = gated_echo rest"

text \<open>
  The candidate addresses of a family for an input: the literal address itself for
  its own family, and what the family's lookup left for a domain.
\<close>

definition candidates :: "world \<Rightarrow> string \<Rightarrow> string \<Rightarrow> ip list" where
  "candidates w input family =
     (case ParseIP w input of
        Some parsed \<Rightarrow> if (To4 parsed \<noteq> None) = (family = ''4'') then [parsed] else []
      | None \<Rightarrow> fst (lookupGoroutine w (if family = ''4'' then ''ip4'' else ''ip6'') input))"


text \<open>
  What the goroutine of a literal address amounts to once \<open>doICMP\<close> returns, and
  what the goroutine of one family of a domain amounts to: nothing when the lookup
  left no address, the family's chain of stages otherwise.
\<close>

definition literalStages :: "world \<Rightarrow> context \<Rightarrow> ip \<Rightarrow> string \<Rightarrow> string \<Rightarrow> bool \<times> stage list" where
  "literalStages w ctx parsed input family =
     (if doICMP (socket w ctx (Echo 0 parsed)) ctx parsed = Some True
      then (True, [Stage EchoStage [[EchoProbe parsed (Some True)]] True])
      else (fst (pingWithFamily w ctx input family),
            [Stage EchoStage [[EchoProbe parsed (Some False)]] False,
             Stage PingStage [snd (pingWithFamily w ctx input family)]
               (fst (pingWithFamily w ctx input family))]))"

definition domainStages :: "world \<Rightarrow> context \<Rightarrow> string \<Rightarrow> string \<Rightarrow> bool \<times> stage list" where
  "domainStages w ctx input family =
     (let ips = fst (lookupGoroutine w (if family = ''4'' then ''ip4'' else ''ip6'') input)
      in if ips \<noteq> [] then familyGoroutine w ctx input family ips [''443'', ''80'']
         else (False, []))"


text \<open>
  The stages of one family in a request, whatever the input: those of the literal
  address if the input is one of this family, none if it is one of the other family,
  and those of the domain otherwise.
\<close>

definition familyStages :: "world \<Rightarrow> context \<Rightarrow> string \<Rightarrow> string \<Rightarrow> bool \<times> stage list" where
  "familyStages w ctx input family =
     (case ParseIP w input of
        Some parsed \<Rightarrow>
          if (To4 parsed \<noteq> None) = (family = ''4'')
          then literalStages w ctx parsed input family
          else (False, [])
      | None \<Rightarrow> domainStages w ctx input family)"

text \<open>The example host at a moment when none of its gates has room.\<close>

definition full_gates_world :: world where
  "full_gates_world = tcp_only_world \<lparr> admit := (\<lambda>k. False) \<rparr>"

text \<open>
  The successes that count. An echo attempt of a race counts when it got its slot, its
  probe returned true, and its value reached the \<open>select\<close> of the race before
  \<open>Done\<close> was closed (or in the same millisecond, the \<open>select\<close> taking it). An
  attempt to connect counts when it got its slot and the connection was established
  in less than 1200 ms and before the context was done. The system ping counts when
  the command ends without error before the context is done.
\<close>

definition echoInTime :: "world \<Rightarrow> context \<Rightarrow> nat \<times> ip \<Rightarrow> bool" where
  "echoInTime w ctx2 = (\<lambda>(i, a).
     admit w (Echo i a)
     \<and> doICMP (socket w ctx2 (Echo i a)) ctx2 a = Some True
     \<and> (\<not> isDone ctx2 (probeEnd w ctx2 (Echo i a) a)
          \<or> (doneAt ctx2 = Some (probeEnd w ctx2 (Echo i a) a) \<and> wins_tie w (Echo i a))))"

definition connectInTime :: "world \<Rightarrow> context \<Rightarrow> nat \<times> ip \<Rightarrow> string \<Rightarrow> bool" where
  "connectInTime w ctx2 = (\<lambda>(i, a) p.
     admit w (Connect i a p)
     \<and> (case fate_of w (Connect i a p) of
           Established d \<Rightarrow> d < 1200 \<and> \<not> isDone ctx2 (dial_at w (Connect i a p) + d)
         | Aborted e d \<Rightarrow> False
         | NoAnswer \<Rightarrow> False))"

definition pingInTime :: "world \<Rightarrow> context \<Rightarrow> string \<Rightarrow> string \<Rightarrow> bool" where
  "pingInTime w ctx host family =
     (Run w (pingCommand w host family) \<and> \<not> isDone ctx (pingEnd w host family))"

text \<open>
  A family is reached at the moment \<open>t\<close>, under the context of the request. For a
  literal address of the family: its echo probe returns true at \<open>t\<close>, or the system
  ping of the input counts and ends at \<open>t\<close>. For a domain: the family has
  candidate addresses, and an echo attempt at one of them counts under the context of
  the echo stage, or an attempt to connect to one of them on port 443 or 80 counts
  under the context of the connect stage, or the system ping of the input counts,
  \<open>t\<close> being the moment of that success. The system ping is given the input
  string, not an address.
\<close>

definition reachedAt :: "world \<Rightarrow> context \<Rightarrow> string \<Rightarrow> string \<Rightarrow> nat \<Rightarrow> bool" where
  "reachedAt w ctx input family t =
     (case ParseIP w input of
        Some parsed \<Rightarrow>
          (To4 parsed \<noteq> None) = (family = ''4'')
          \<and> ((doICMP (socket w ctx (Echo 0 parsed)) ctx parsed = Some True
                \<and> t = probeEnd w ctx (Echo 0 parsed) parsed)
               \<or> (pingInTime w ctx input family \<and> t = pingEnd w input family))
      | None \<Rightarrow>
          candidates w input family \<noteq> []
          \<and> (list_ex (\<lambda>(i, a).
                        echoInTime w (WithTimeout ctx (stage_at w EchoStage family) 2200) (i, a)
                        \<and> t = probeEnd w (WithTimeout ctx (stage_at w EchoStage family) 2200)
                                (Echo i a) a)
                 (enumerate 0 (candidates w input family))
               \<or> list_ex (\<lambda>(i, a).
                            list_ex (\<lambda>p.
                                connectInTime w
                                  (WithTimeout ctx (stage_at w ConnectStage family) 2200) (i, a) p
                                \<and> t = connectedAt w (Connect i a p))
                              [''443'', ''80''])
                    (enumerate 0 (candidates w input family))
               \<or> (pingInTime w ctx input family \<and> t = pingEnd w input family)))"

text \<open>
  Two more hosts for examples, on which \<open>example.com\<close> has one IPv4 address and
  no IPv6 address, and every port refuses the connection. On the first the raw socket
  does not open, each of the two races takes its 2200 ms to return false, so that the
  connect stage starts at 2200 and the ping stage at 4400, and the system's
  \<open>ping\<close>, given the name, succeeds in 30 ms. On the second the raw socket opens
  and the echo reply is read 30 ms after the request started, the system's
  \<open>ping\<close> fails, and the stages after the echo stage, when they run at all, start
  at 20: it is the host of a request that is cancelled at 20.
\<close>

definition ping_only_world :: world where
  "ping_only_world =
     \<lparr> ParseIP = (\<lambda>s. None),
       LookupIP = (\<lambda>network host.
                     if host = ''example.com'' \<and> network = ''ip4'' then [[192, 0, 2, 1]] else []),
       admit = (\<lambda>k. True),
       net_of = (\<lambda>k. quiet_net \<lparr> ListenPacket := (\<lambda>network laddr. False) \<rparr>),
       probe_at = (\<lambda>k. 10),
       read_wait = (\<lambda>k i. 20),
       dial_at = (\<lambda>k. 2210),
       fate_of = (\<lambda>k. Aborted ConnectionRefused 5),
       wins_tie = (\<lambda>k. False),
       stage_at = (\<lambda>kind family.
                     case kind of EchoStage \<Rightarrow> 0 | ConnectStage \<Rightarrow> 2200 | PingStage \<Rightarrow> 4400),
       Run = (\<lambda>args. True),
       run_time = (\<lambda>args. 30),
       GOOS = ''linux'' \<rparr>"

definition echo_only_world :: world where
  "echo_only_world =
     ping_only_world
       \<lparr> net_of :=
           (\<lambda>k. quiet_net
                  \<lparr> ReadFrom := [(False, Packet [0, 0, 0, 0, 0, 0, 0, 1, 112, 105, 110, 103])] \<rparr>),
         dial_at := (\<lambda>k. 20),
         stage_at := (\<lambda>kind family. case kind of EchoStage \<Rightarrow> 0 | _ \<Rightarrow> 20),
         Run := (\<lambda>args. False) \<rparr>"

section \<open>The configuration contract\<close>

lemma digitsValue_Some: "digitsValue a s = Some m \<Longrightarrow> list_all isDigit s"
  by (induction s arbitrary: a) (auto split: if_splits)

lemma digitsValue_snoc:
  "digitsValue a (xs @ [c]) =
     (case digitsValue a xs of
        None \<Rightarrow> None
      | Some m \<Rightarrow> if isDigit c then Some (m * 10 + (of_char c - 48)) else None)"
  by (induction xs arbitrary: a) auto

lemma digit_char:
  "d < 10 \<Longrightarrow> isDigit (char_of (48 + d)) \<and> (of_char (char_of (48 + d)) :: nat) = 48 + d"
  by (simp add: isDigit_def)

lemma decimal_snoc: "\<not> n < 10 \<Longrightarrow> decimal n = decimal (n div 10) @ [char_of (48 + n mod 10)]"
  by (subst decimal.simps) simp

lemma digitsValue_decimal: "digitsValue 0 (decimal n) = Some n"
proof (induction n rule: decimal.induct)
  case (1 n)
  show ?case
  proof (cases "n < 10")
    case True
    then show ?thesis using digit_char [of n] by (simp add: decimal.simps [of n])
  next
    case False
    have d: "n mod 10 < 10" by simp
    from False 1 have ih: "digitsValue 0 (decimal (n div 10)) = Some (n div 10)" by simp
    show ?thesis
      using ih digit_char [OF d] by (simp add: digitsValue_snoc decimal_snoc [OF False])
  qed
qed

lemma decimal_digits: "list_all isDigit (decimal n)"
  using digitsValue_decimal by (rule digitsValue_Some)

lemma decimal_nonempty: "decimal n \<noteq> []"
  by (subst decimal.simps) simp

lemma digit_not_space: "isDigit c \<Longrightarrow> e \<in> set spaceRunes \<Longrightarrow> hd e \<noteq> c \<and> e \<noteq> []"
  by (auto simp: spaceRunes_def isDigit_def)

lemma digit_not_space_rev:
  "isDigit c \<Longrightarrow> e \<in> set (map rev spaceRunes) \<Longrightarrow> hd e \<noteq> c \<and> e \<noteq> []"
  by (auto simp: spaceRunes_def isDigit_def)

lemma spaceWidth_none:
  assumes "\<And>e. e \<in> set tab \<Longrightarrow> hd e \<noteq> c \<and> e \<noteq> []"
  shows "spaceWidth tab (c # cs) = 0"
proof -
  have "find (\<lambda>e. take (length e) (c # cs) = e) tab = None"
  proof (simp add: find_None_iff, intro allI impI notI)
    fix e assume "e \<in> set tab" and eq: "take (length e) (c # cs) = e"
    then have h: "hd e \<noteq> c \<and> e \<noteq> []" using assms by blast
    then obtain x xs where "e = x # xs" by (cases e) auto
    with eq h show False by auto
  qed
  then show ?thesis by (simp add: spaceWidth_def)
qed

lemma spaceWidth_digit: "isDigit c \<Longrightarrow> spaceWidth spaceRunes (c # cs) = 0"
  by (rule spaceWidth_none) (rule digit_not_space)

lemma spaceWidth_rev_digit: "isDigit c \<Longrightarrow> spaceWidth (map rev spaceRunes) (c # cs) = 0"
  by (rule spaceWidth_none) (rule digit_not_space_rev)

lemma trimFront_keeps: "s = [] \<or> spaceWidth tab s = 0 \<Longrightarrow> trimFront tab s = s"
  by (cases s) auto

lemma TrimSpace_digits:
  assumes "s \<noteq> []" "list_all isDigit s"
  shows "TrimSpace s = s"
proof -
  obtain c cs where s: "s = c # cs" using assms(1) by (cases s) auto
  with assms(2) have "isDigit c" by simp
  then have f: "trimFront spaceRunes s = s"
    unfolding s by (intro trimFront_keeps disjI2 spaceWidth_digit)
  have "rev s \<noteq> []" using assms(1) by simp
  then obtain d ds where r: "rev s = d # ds" by (cases "rev s") auto
  have "d \<in> set s" using r by (metis list.set_intros(1) set_rev)
  with assms(2) have "isDigit d" by (simp add: list_all_iff)
  then have "trimFront (map rev spaceRunes) (rev s) = rev s"
    unfolding r by (intro trimFront_keeps disjI2 spaceWidth_rev_digit)
  with f show ?thesis by (simp add: TrimSpace_def)
qed

lemma Atoi_decimal: "n < 2 ^ (bits - 1) \<Longrightarrow> Atoi bits (decimal n) = Some (int n)"
proof -
  assume b: "n < 2 ^ (bits - 1)"
  have ne: "decimal n \<noteq> []" by (rule decimal_nonempty)
  have "isDigit (hd (decimal n))"
    using decimal_digits [of n] ne by (cases "decimal n") auto
  then have "hd (decimal n) \<noteq> CHR ''-''" "hd (decimal n) \<noteq> CHR ''+''"
    by (auto simp: isDigit_def)
  then show ?thesis
    using ne b digitsValue_decimal [of n] by (simp add: Atoi_def)
qed

lemma Atoi_numeric: "Atoi bits s = Some i \<Longrightarrow> numericText s"
  unfolding Atoi_def numericText_def Let_def
  by (auto split: if_splits option.splits dest: digitsValue_Some)

lemma getEnvInt_cases:
  "getEnvInt bits env key def =
     (case Atoi bits (TrimSpace (Getenv env key)) of
        None \<Rightarrow> def | Some i \<Rightarrow> if i \<le> 0 then def else i)"
proof (cases "TrimSpace (Getenv env key) = []")
  case True
  then show ?thesis by (simp add: getEnvInt_def Atoi_def)
next
  case False
  then show ?thesis by (simp add: getEnvInt_def)
qed

lemma getEnvInt_positive: "0 < def \<Longrightarrow> 0 < getEnvInt bits env key def"
  by (auto simp: getEnvInt_def Let_def split: option.splits)

text \<open>
  Claim C6. \<open>getEnvInt\<close> returns the default when the variable is unset, when its
  value is empty once trimmed, when the value is not numeric (\<open>Atoi\<close> fails) and
  when it parses to an integer that is not positive; it returns the parsed value when
  that is positive, in particular the number itself for the decimal text of a positive
  number that fits an \<open>int\<close>. \<open>init\<close> sizes the three gates from \<open>MAX_DNS\<close>,
  \<open>MAX_ICMP\<close> and \<open>MAX_TCP\<close> with the defaults 4096, 8192 and 8192, and every
  capacity is positive.
\<close>

theorem getEnvInt_contract:
  "(env key = None \<longrightarrow> getEnvInt bits env key def = def)
   \<and> (TrimSpace (Getenv env key) = [] \<longrightarrow> getEnvInt bits env key def = def)
   \<and> (\<not> numericText (TrimSpace (Getenv env key)) \<longrightarrow> getEnvInt bits env key def = def)
   \<and> (Atoi bits (TrimSpace (Getenv env key)) = None \<longrightarrow> getEnvInt bits env key def = def)
   \<and> (\<forall>i. Atoi bits (TrimSpace (Getenv env key)) = Some i \<and> i \<le> 0 \<longrightarrow>
          getEnvInt bits env key def = def)
   \<and> (\<forall>i. Atoi bits (TrimSpace (Getenv env key)) = Some i \<and> 0 < i \<longrightarrow>
          getEnvInt bits env key def = i)
   \<and> (\<forall>n. 0 < n \<and> n < 2 ^ (bits - 1) \<and> env key = Some (decimal n) \<longrightarrow>
          getEnvInt bits env key def = int n)
   \<and> init bits env =
       \<lparr> semDNS = getEnvInt bits env ''MAX_DNS'' 4096,
         semICMP = getEnvInt bits env ''MAX_ICMP'' 8192,
         semTCP = getEnvInt bits env ''MAX_TCP'' 8192 \<rparr>
   \<and> init bits Map.empty = \<lparr> semDNS = 4096, semICMP = 8192, semTCP = 8192 \<rparr>
   \<and> 0 < semDNS (init bits env) \<and> 0 < semICMP (init bits env) \<and> 0 < semTCP (init bits env)"
proof -
  have unset: "env key = None \<longrightarrow> getEnvInt bits env key def = def"
    by (simp add: getEnvInt_def Getenv_def TrimSpace_def)
  have empty: "TrimSpace (Getenv env key) = [] \<longrightarrow> getEnvInt bits env key def = def"
    by (simp add: getEnvInt_def)
  have nonnum: "\<not> numericText (TrimSpace (Getenv env key)) \<longrightarrow> getEnvInt bits env key def = def"
    using Atoi_numeric [of bits "TrimSpace (Getenv env key)"]
    by (auto simp: getEnvInt_cases split: option.splits)
  have err: "Atoi bits (TrimSpace (Getenv env key)) = None \<longrightarrow> getEnvInt bits env key def = def"
    by (simp add: getEnvInt_cases)
  have nonpos: "\<forall>i. Atoi bits (TrimSpace (Getenv env key)) = Some i \<and> i \<le> 0 \<longrightarrow>
          getEnvInt bits env key def = def"
    by (simp add: getEnvInt_cases)
  have pos: "\<forall>i. Atoi bits (TrimSpace (Getenv env key)) = Some i \<and> 0 < i \<longrightarrow>
          getEnvInt bits env key def = i"
    by (simp add: getEnvInt_cases)
  have dec: "\<forall>n. 0 < n \<and> n < 2 ^ (bits - 1) \<and> env key = Some (decimal n) \<longrightarrow>
          getEnvInt bits env key def = int n"
  proof (intro allI impI)
    fix n assume a: "0 < n \<and> n < 2 ^ (bits - 1) \<and> env key = Some (decimal n)"
    then have "TrimSpace (Getenv env key) = decimal n"
      by (simp add: Getenv_def TrimSpace_digits [OF decimal_nonempty decimal_digits])
    then show "getEnvInt bits env key def = int n"
      using a Atoi_decimal [of n bits] by (simp add: getEnvInt_cases)
  qed
  have i1: "init bits Map.empty = \<lparr> semDNS = 4096, semICMP = 8192, semTCP = 8192 \<rparr>"
    by (simp add: init_def getEnvInt_def Getenv_def TrimSpace_def)
  have i2: "0 < semDNS (init bits env) \<and> 0 < semICMP (init bits env) \<and> 0 < semTCP (init bits env)"
    by (simp add: init_def getEnvInt_positive)
  show ?thesis
    using unset empty nonnum err nonpos pos dec i1 i2 by (simp only: init_def simp_thms)
qed


lemmas trim_eval = Getenv_def TrimSpace_def spaceRunes_def spaceWidth_def

theorem getEnvInt_contract_witness:
  "getEnvInt 64 Map.empty ''MAX_ICMP'' 8192 = 8192
   \<and> getEnvInt 64 [''MAX_DNS'' \<mapsto> ''  ''] ''MAX_DNS'' 4096 = 4096
   \<and> getEnvInt 64 [''MAX_DNS'' \<mapsto> ''12a''] ''MAX_DNS'' 4096 = 4096
   \<and> getEnvInt 64 [''MAX_DNS'' \<mapsto> ''abc''] ''MAX_DNS'' 4096 = 4096
   \<and> getEnvInt 64 [''MAX_DNS'' \<mapsto> ''-5''] ''MAX_DNS'' 4096 = 4096
   \<and> getEnvInt 64 [''MAX_DNS'' \<mapsto> '' 17 ''] ''MAX_DNS'' 4096 = 17
   \<and> getEnvInt 64 [''MAX_TCP'' \<mapsto> decimal 100] ''MAX_TCP'' 8192 = 100"
proof -
  have unset: "(Map.empty :: environ) ''MAX_ICMP'' = None" by simp
  have blank: "TrimSpace (Getenv [''MAX_DNS'' \<mapsto> ''  ''] ''MAX_DNS'') = []"
    by (simp add: trim_eval)
  have junk: "Atoi 64 (TrimSpace (Getenv [''MAX_DNS'' \<mapsto> ''12a''] ''MAX_DNS'')) = None"
    by (simp add: trim_eval Atoi_def isDigit_def)
  have word: "\<not> numericText (TrimSpace (Getenv [''MAX_DNS'' \<mapsto> ''abc''] ''MAX_DNS''))"
    by (simp add: trim_eval numericText_def isDigit_def)
  have minus: "Atoi 64 (TrimSpace (Getenv [''MAX_DNS'' \<mapsto> ''-5''] ''MAX_DNS'')) = Some (- 5)
               \<and> (- 5 :: int) \<le> 0"
    by (simp add: trim_eval Atoi_def isDigit_def)
  have plus: "Atoi 64 (TrimSpace (Getenv [''MAX_DNS'' \<mapsto> '' 17 ''] ''MAX_DNS'')) = Some 17
               \<and> (0 :: int) < 17"
    by (simp add: trim_eval Atoi_def isDigit_def)
  have dec: "(0::nat) < 100 \<and> (100::nat) < 2 ^ (64 - 1)
             \<and> [''MAX_TCP'' \<mapsto> decimal 100] ''MAX_TCP'' = Some (decimal 100)"
    by simp
  have c1: "getEnvInt 64 Map.empty ''MAX_ICMP'' 8192 = 8192"
    by (rule getEnvInt_contract
        [of "Map.empty" "''MAX_ICMP''" 64 8192,
         THEN conjunct1, rule_format, OF unset])
  have c2: "getEnvInt 64 [''MAX_DNS'' \<mapsto> ''  ''] ''MAX_DNS'' 4096 = 4096"
    by (rule getEnvInt_contract
        [of "[''MAX_DNS'' \<mapsto> ''  '']" "''MAX_DNS''" 64 4096,
         THEN conjunct2, THEN conjunct1, rule_format, OF blank])
  have c3: "getEnvInt 64 [''MAX_DNS'' \<mapsto> ''12a''] ''MAX_DNS'' 4096 = 4096"
    by (rule getEnvInt_contract
        [of "[''MAX_DNS'' \<mapsto> ''12a'']" "''MAX_DNS''" 64 4096,
         THEN conjunct2, THEN conjunct2, THEN conjunct2, THEN conjunct1, rule_format, OF junk])
  have c4: "getEnvInt 64 [''MAX_DNS'' \<mapsto> ''abc''] ''MAX_DNS'' 4096 = 4096"
    by (rule getEnvInt_contract
        [of "[''MAX_DNS'' \<mapsto> ''abc'']" "''MAX_DNS''" 64 4096,
         THEN conjunct2, THEN conjunct2, THEN conjunct1, rule_format, OF word])
  have c5: "getEnvInt 64 [''MAX_DNS'' \<mapsto> ''-5''] ''MAX_DNS'' 4096 = 4096"
    by (rule getEnvInt_contract
        [of "[''MAX_DNS'' \<mapsto> ''-5'']" "''MAX_DNS''" 64 4096,
         THEN conjunct2, THEN conjunct2, THEN conjunct2, THEN conjunct2, THEN conjunct1,
         rule_format, OF minus])
  have c6: "getEnvInt 64 [''MAX_DNS'' \<mapsto> '' 17 ''] ''MAX_DNS'' 4096 = 17"
    by (rule getEnvInt_contract
        [of "[''MAX_DNS'' \<mapsto> '' 17 '']" "''MAX_DNS''" 64 4096,
         THEN conjunct2, THEN conjunct2, THEN conjunct2, THEN conjunct2, THEN conjunct2,
         THEN conjunct1, rule_format, OF plus])
  have c7: "getEnvInt 64 [''MAX_TCP'' \<mapsto> decimal 100] ''MAX_TCP'' 8192 = int 100"
    by (rule getEnvInt_contract
        [of "[''MAX_TCP'' \<mapsto> decimal 100]" "''MAX_TCP''" 64 8192,
         THEN conjunct2, THEN conjunct2, THEN conjunct2, THEN conjunct2, THEN conjunct2,
         THEN conjunct2, THEN conjunct1, rule_format, OF dec])
  show ?thesis
    using c1 c2 c3 c4 c5 c6 c7 by simp
qed

section \<open>The read loop\<close>

lemma doICMP_phases:
  "doICMP net ctx a =
     (if \<not> ListenPacket net (icmpNetwork a) (icmpLaddr a) then Some False
      else (case Marshal net (echoRequest net a) of
              None \<Rightarrow> Some False
            | Some b \<Rightarrow>
                if \<not> WriteTo net b a then Some False
                else readLoop (deadline ctx \<noteq> None) (parse_body net) a (ReadFrom net)))"
  by (simp add: doICMP_def icmpNetwork_def icmpLaddr_def echoRequest_def)

lemma ParseMessage_own_protocol:
  "ParseMessage body_ok (getProto a) b = Some t \<Longrightarrow>
     (t = ipv4_ICMPTypeEchoReply \<or> t = ipv6_ICMPTypeEchoReply) = (t = echoReplyFor a)"
  by (auto simp: ParseMessage_def getProto_def echoReplyFor_def ipv4_ICMPTypeEchoReply_def
      ipv6_ICMPTypeEchoReply_def split: if_splits)

lemma readLoop_packet:
  "readLoop d body_ok a ((False, Packet b) # rest) =
     (if ParseMessage body_ok (getProto a) b = Some (echoReplyFor a) then Some True
      else readLoop d body_ok a rest)"
proof (cases "ParseMessage body_ok (getProto a) b")
  case None
  then show ?thesis by simp
next
  case (Some t)
  from ParseMessage_own_protocol [OF Some] Some show ?thesis by simp
qed

lemma readLoop_discards:
  "list_all (discarded body_ok a) pre \<Longrightarrow>
     readLoop d body_ok a (pre @ rest) = readLoop d body_ok a rest"
proof (induction pre)
  case Nil
  then show ?case by simp
next
  case (Cons turn pre)
  obtain ctx_done r where t: "turn = (ctx_done, r)" by (cases turn)
  from Cons.prems t obtain b where r: "r = Packet b" and nd: "\<not> ctx_done"
    and nm: "ParseMessage body_ok (getProto a) b \<noteq> Some (echoReplyFor a)"
    by (cases r) (auto simp: discarded_def)
  from Cons.prems have "list_all (discarded body_ok a) pre" by simp
  from Cons.IH [OF this] show ?case
    using nm by (simp only: t r nd append_Cons readLoop_packet if_False) 
qed

lemma readLoop_error: "readLoop d body_ok a ((ctx_done, ReadError e) # rest) = Some False"
  by simp

lemma readLoop_ctx_done: "readLoop d body_ok a ((True, r) # rest) = Some False"
  by simp

lemma readLoop_true_iff:
  "readLoop d body_ok a turns = Some True \<longleftrightarrow>
     (\<exists>pre b rest. turns = pre @ (False, Packet b) # rest
        \<and> list_all (discarded body_ok a) pre
        \<and> ParseMessage body_ok (getProto a) b = Some (echoReplyFor a))"
proof (induction turns)
  case Nil
  then show ?case by simp
next
  case (Cons turn turns)
  obtain ctx_done r where t: "turn = (ctx_done, r)" by (cases turn)
  show ?case
  proof (cases "discarded body_ok a turn")
    case True
    then obtain b where r: "r = Packet b" and nd: "\<not> ctx_done"
      and nm: "ParseMessage body_ok (getProto a) b \<noteq> Some (echoReplyFor a)"
      using t by (cases r) (auto simp: discarded_def)
    have l: "readLoop d body_ok a (turn # turns) = readLoop d body_ok a turns"
      using nm nd by (simp only: t r readLoop_packet if_False)
    have "(\<exists>pre b rest. turn # turns = pre @ (False, Packet b) # rest
        \<and> list_all (discarded body_ok a) pre
        \<and> ParseMessage body_ok (getProto a) b = Some (echoReplyFor a))
      \<longleftrightarrow> (\<exists>pre b rest. turns = pre @ (False, Packet b) # rest
        \<and> list_all (discarded body_ok a) pre
        \<and> ParseMessage body_ok (getProto a) b = Some (echoReplyFor a))" (is "?L \<longleftrightarrow> ?R")
    proof
      assume ?L
      then obtain pre b' rest where e: "turn # turns = pre @ (False, Packet b') # rest"
        and p: "list_all (discarded body_ok a) pre"
        and m: "ParseMessage body_ok (getProto a) b' = Some (echoReplyFor a)" by blast
      show ?R
      proof (cases pre)
        case Nil
        with e have "turn = (False, Packet b')" by simp
        with True m show ?thesis by (simp add: discarded_def)
      next
        case (Cons x pre')
        with e p m show ?thesis by auto
      qed
    next
      assume ?R
      then obtain pre b' rest where e: "turns = pre @ (False, Packet b') # rest"
        and p: "list_all (discarded body_ok a) pre"
        and m: "ParseMessage body_ok (getProto a) b' = Some (echoReplyFor a)" by blast
      have "turn # turns = (turn # pre) @ (False, Packet b') # rest" using e by simp
      moreover have "list_all (discarded body_ok a) (turn # pre)" using True p by simp
      ultimately show ?L using m by blast
    qed
    with l Cons.IH show ?thesis by simp
  next
    case False
    show ?thesis
    proof (cases "\<exists>b. turn = (False, Packet b) \<and> ParseMessage body_ok (getProto a) b = Some (echoReplyFor a)")
      case True
      then obtain b where tb: "turn = (False, Packet b)"
        and m: "ParseMessage body_ok (getProto a) b = Some (echoReplyFor a)" by blast
      have "readLoop d body_ok a (turn # turns) = Some True"
        using m by (simp add: tb readLoop_packet del: readLoop.simps)
      moreover have "turn # turns = [] @ (False, Packet b) # turns" using tb by simp
      moreover have "list_all (discarded body_ok a) []" by simp
      ultimately show ?thesis using m by blast
    next
      case nomatch: False
      have f: "readLoop d body_ok a (turn # turns) = Some False"
      proof (cases r)
        case (Packet b)
        with False t nomatch have "ctx_done" by (auto simp: discarded_def)
        then show ?thesis by (simp add: t)
      next
        case (ReadError e)
        then show ?thesis by (simp add: t)
      qed
      have "\<not> (\<exists>pre b rest. turn # turns = pre @ (False, Packet b) # rest
        \<and> list_all (discarded body_ok a) pre
        \<and> ParseMessage body_ok (getProto a) b = Some (echoReplyFor a))"
      proof
        assume "\<exists>pre b rest. turn # turns = pre @ (False, Packet b) # rest
          \<and> list_all (discarded body_ok a) pre
          \<and> ParseMessage body_ok (getProto a) b = Some (echoReplyFor a)"
        then obtain pre b' rest where e: "turn # turns = pre @ (False, Packet b') # rest"
          and p: "list_all (discarded body_ok a) pre"
          and m: "ParseMessage body_ok (getProto a) b' = Some (echoReplyFor a)" by blast
        show False
        proof (cases pre)
          case Nil
          with e m nomatch show ?thesis by simp
        next
          case (Cons x pre')
          with e p False show ?thesis by simp
        qed
      qed
      with f show ?thesis by simp
    qed
  qed
qed

lemma readLoop_returns: "\<exists>b. readLoop True body_ok a turns = Some b"
proof (induction turns)
  case Nil
  show ?case by (rule exI [of _ False]) simp
next
  case (Cons turn turns)
  obtain ctx_done r where t: "turn = (ctx_done, r)" by (cases turn)
  show ?case
  proof (cases r)
    case (Packet b)
    show ?thesis
    proof (cases ctx_done)
      case True
      then have "readLoop True body_ok a (turn # turns) = Some False" by (simp add: t)
      then show ?thesis by blast
    next
      case False
      then have "readLoop True body_ok a (turn # turns) = Some True
                 \<or> readLoop True body_ok a (turn # turns) = readLoop True body_ok a turns"
        by (simp add: t Packet readLoop_packet del: readLoop.simps)
      with Cons.IH show ?thesis by auto
    qed
  next
    case (ReadError e)
    with t have "readLoop True body_ok a (turn # turns) = Some False" by simp
    then show ?thesis by blast
  qed
qed

lemma doICMP_returns:
  assumes "deadline ctx \<noteq> None"
  shows "\<exists>b. doICMP net ctx a = Some b"
proof -
  obtain r where r: "readLoop True (parse_body net) a (ReadFrom net) = Some r"
    using readLoop_returns by blast
  have "doICMP net ctx a = Some False \<or> doICMP net ctx a = Some r"
    using assms r by (simp add: doICMP_phases split: option.splits)
  then show ?thesis by blast
qed

section \<open>Echo replies\<close>

lemma echoReplyFor_cases:
  "echoReplyFor a = (if To4 a \<noteq> None then ICMPv4Type 0 else ICMPv6Type 129)"
  by (simp add: echoReplyFor_def ipv4_ICMPTypeEchoReply_def ipv6_ICMPTypeEchoReply_def)

lemma ParseMessage_family:
  "ParseMessage body_ok (getProto a) b = Some t \<Longrightarrow>
     (case t of ICMPv4Type n \<Rightarrow> To4 a \<noteq> None | ICMPv6Type n \<Rightarrow> To4 a = None)"
  by (auto simp: ParseMessage_def getProto_def split: if_splits)

text \<open>
  Claim C4. The read loop returns true exactly when, after packets that were all
  discarded, a packet arrives that parses to the echo reply type of the address's own
  protocol (ICMPv4 type 0 for an IPv4 target, ICMPv6 type 129 for an IPv6 target);
  a packet that does not is discarded and reading goes on; a read error of any kind,
  a context that is done, and the deadline passing with nothing left to read all
  give false. A parsed type is always of the address's own protocol.
\<close>

theorem readLoop_own_echo_reply:
  "(readLoop d body_ok a turns = Some True \<longleftrightarrow>
      (\<exists>pre b rest. turns = pre @ (False, Packet b) # rest
         \<and> list_all (discarded body_ok a) pre
         \<and> ParseMessage body_ok (getProto a) b = Some (echoReplyFor a)))
   \<and> (list_all (discarded body_ok a) pre \<longrightarrow>
         readLoop d body_ok a (pre @ rest) = readLoop d body_ok a rest)
   \<and> (list_all (discarded body_ok a) pre \<longrightarrow>
         readLoop d body_ok a (pre @ (ctx_done, ReadError e) # rest) = Some False)
   \<and> (list_all (discarded body_ok a) pre \<longrightarrow>
         readLoop d body_ok a (pre @ (True, r) # rest) = Some False)
   \<and> (list_all (discarded body_ok a) pre \<longrightarrow> readLoop True body_ok a pre = Some False)
   \<and> echoReplyFor a = (if To4 a \<noteq> None then ICMPv4Type 0 else ICMPv6Type 129)
   \<and> (\<forall>b t. ParseMessage body_ok (getProto a) b = Some t \<longrightarrow>
         (case t of ICMPv4Type n \<Rightarrow> To4 a \<noteq> None | ICMPv6Type n \<Rightarrow> To4 a = None))
   \<and> (doICMP net ctx a = Some True \<longrightarrow>
         (\<exists>pre b rest. ReadFrom net = pre @ (False, Packet b) # rest
            \<and> list_all (discarded (parse_body net) a) pre
            \<and> ParseMessage (parse_body net) (getProto a) b = Some (echoReplyFor a)))"
proof -
  have p2: "list_all (discarded body_ok a) pre \<longrightarrow>
         readLoop d body_ok a (pre @ rest) = readLoop d body_ok a rest"
    by (simp add: readLoop_discards)
  have p3: "list_all (discarded body_ok a) pre \<longrightarrow>
         readLoop d body_ok a (pre @ (ctx_done, ReadError e) # rest) = Some False"
    by (simp add: readLoop_discards del: readLoop.simps) simp
  have p4: "list_all (discarded body_ok a) pre \<longrightarrow>
         readLoop d body_ok a (pre @ (True, r) # rest) = Some False"
    by (simp add: readLoop_discards del: readLoop.simps) simp
  have p5: "list_all (discarded body_ok a) pre \<longrightarrow> readLoop True body_ok a pre = Some False"
    using readLoop_discards [of body_ok a pre True "[]"] by simp
  have p7: "\<forall>b t. ParseMessage body_ok (getProto a) b = Some t \<longrightarrow>
         (case t of ICMPv4Type n \<Rightarrow> To4 a \<noteq> None | ICMPv6Type n \<Rightarrow> To4 a = None)"
    using ParseMessage_family by blast
  have p8: "doICMP net ctx a = Some True \<longrightarrow>
         (\<exists>pre b rest. ReadFrom net = pre @ (False, Packet b) # rest
            \<and> list_all (discarded (parse_body net) a) pre
            \<and> ParseMessage (parse_body net) (getProto a) b = Some (echoReplyFor a))"
  proof
    assume t: "doICMP net ctx a = Some True"
    then have "readLoop (deadline ctx \<noteq> None) (parse_body net) a (ReadFrom net) = Some True"
      by (auto simp: doICMP_phases split: if_splits option.splits)
    then show "\<exists>pre b rest. ReadFrom net = pre @ (False, Packet b) # rest
            \<and> list_all (discarded (parse_body net) a) pre
            \<and> ParseMessage (parse_body net) (getProto a) b = Some (echoReplyFor a)"
      by (simp only: readLoop_true_iff)
  qed
  show ?thesis
    using readLoop_true_iff [of d body_ok a turns] p2 p3 p4 p5 echoReplyFor_cases [of a] p7 p8
    by (intro conjI) assumption+
qed

lemmas icmp_eval =
  To4_def getProto_def ParseMessage_def discarded_def echoReplyFor_def
  ipv4_ICMPTypeEchoReply_def ipv6_ICMPTypeEchoReply_def ipv4_ICMPTypeEcho_def
  ipv6_ICMPTypeEchoRequest_def

theorem readLoop_own_echo_reply_witness:
  "readLoop True (\<lambda>t b. 4 \<le> length b) [192, 0, 2, 1]
     [(False, Packet [129, 0, 0, 0, 0, 0, 0, 1]),
      (False, Packet [0, 0, 0, 0, 0, 0, 0, 1]),
      (False, ReadError NetTimeout)] = Some True
   \<and> readLoop True (\<lambda>t b. 4 \<le> length b) [192, 0, 2, 1]
       [(False, Packet [129, 0, 0, 0, 0, 0, 0, 1]), (False, ReadError OtherReadError)] = Some False
   \<and> readLoop True (\<lambda>t b. 4 \<le> length b) [192, 0, 2, 1]
       [(False, Packet [129, 0, 0, 0, 0, 0, 0, 1])] = Some False"
proof -
  let ?ok = "\<lambda>(t :: icmp_type) (b :: nat list). 4 \<le> length b"
  let ?a = "[192, 0, 2, 1] :: ip"
  let ?pre = "[(False, Packet [129, 0, 0, 0, 0, 0, 0, 1])]"
  have pre: "list_all (discarded ?ok ?a) ?pre"
    by (simp add: icmp_eval)
  have hit: "\<exists>pre b rest.
      [(False, Packet [129, 0, 0, 0, 0, 0, 0, 1]), (False, Packet [0, 0, 0, 0, 0, 0, 0, 1]),
       (False, ReadError NetTimeout)] = pre @ (False, Packet b) # rest
      \<and> list_all (discarded ?ok ?a) pre
      \<and> ParseMessage ?ok (getProto ?a) b = Some (echoReplyFor ?a)"
    by (rule exI [of _ ?pre], rule exI [of _ "[0, 0, 0, 0, 0, 0, 0, 1]"],
        rule exI [of _ "[(False, ReadError NetTimeout)]"]) (simp add: icmp_eval)
  note t = readLoop_own_echo_reply [of True ?ok ?a _ ?pre "[]" False OtherReadError]
  have c1: "readLoop True ?ok ?a
     [(False, Packet [129, 0, 0, 0, 0, 0, 0, 1]), (False, Packet [0, 0, 0, 0, 0, 0, 0, 1]),
      (False, ReadError NetTimeout)] = Some True"
    using t [THEN conjunct1] hit by blast
  have c2: "readLoop True ?ok ?a (?pre @ (False, ReadError OtherReadError) # []) = Some False"
    using t [THEN conjunct2, THEN conjunct2, THEN conjunct1] pre by blast
  have c3: "readLoop True ?ok ?a ?pre = Some False"
    using t [THEN conjunct2, THEN conjunct2, THEN conjunct2, THEN conjunct2, THEN conjunct1] pre
    by blast
  show ?thesis using c1 c2 c3 by simp
qed

section \<open>Failures of the ICMP prober\<close>

lemma discarded_simps:
  "discarded body_ok a (c, ReadError e) = False"
  "discarded body_ok a (c, Packet b) =
     (\<not> c \<and> ParseMessage body_ok (getProto a) b \<noteq> Some (echoReplyFor a))"
  by (simp_all add: discarded_def)

lemma readLoop_None_iff:
  "readLoop d body_ok a turns = None \<longleftrightarrow> (\<not> d \<and> list_all (discarded body_ok a) turns)"
proof (induction turns)
  case Nil
  show ?case by simp
next
  case (Cons turn turns)
  obtain ctx_done r where t: "turn = (ctx_done, r)" by (cases turn)
  show ?case
  proof (cases "discarded body_ok a turn")
    case True
    then have "readLoop d body_ok a (turn # turns) = readLoop d body_ok a turns"
      using readLoop_discards [of body_ok a "[turn]" d turns] by simp
    with Cons.IH True show ?thesis by simp
  next
    case False
    have "readLoop d body_ok a (turn # turns) \<noteq> None"
    proof (cases r)
      case (Packet b)
      show ?thesis
      proof (cases ctx_done)
        case True
        then have "readLoop d body_ok a (turn # turns) = Some False" by (simp add: t)
        then show ?thesis by simp
      next
        case nd: False
        with False have "ParseMessage body_ok (getProto a) b = Some (echoReplyFor a)"
          by (simp add: t Packet discarded_simps)
        then have "readLoop d body_ok a (turn # turns) = Some True"
          using nd by (simp add: t Packet readLoop_packet del: readLoop.simps)
        then show ?thesis by simp
      qed
    next
      case (ReadError e)
      then have "readLoop d body_ok a (turn # turns) = Some False" by (simp add: t)
      then show ?thesis by simp
    qed
    with False show ?thesis by simp
  qed
qed

lemma doICMP_None_iff:
  "doICMP net ctx a = None \<longleftrightarrow>
     (deadline ctx = None \<and> ListenPacket net (icmpNetwork a) (icmpLaddr a)
      \<and> (\<exists>b. Marshal net (echoRequest net a) = Some b \<and> WriteTo net b a)
      \<and> list_all (discarded (parse_body net) a) (ReadFrom net))"
proof -
  show ?thesis
    by (auto simp: doICMP_phases readLoop_None_iff split: option.splits)
qed

text \<open>
  Claim C7, as amended. \<open>doICMP\<close> never hands an error to its caller: when the raw
  socket does not open, when the request cannot be marshalled, when the send fails,
  when a read fails with any error, when the context is found done, and when the
  deadline passes with nothing but discarded packets, it returns false. Under a
  context that has a deadline it always returns a boolean. It fails to return only
  under a context with no deadline, when the request went out and nothing but
  discarded packets ever arrives.
\<close>

theorem doICMP_failure_is_false:
  "(\<not> ListenPacket net (icmpNetwork a) (icmpLaddr a) \<longrightarrow> doICMP net ctx a = Some False)
   \<and> (Marshal net (echoRequest net a) = None \<longrightarrow> doICMP net ctx a = Some False)
   \<and> (\<forall>b. Marshal net (echoRequest net a) = Some b \<and> \<not> WriteTo net b a \<longrightarrow>
         doICMP net ctx a = Some False)
   \<and> (\<forall>pre ctx_done e rest.
         ReadFrom net = pre @ (ctx_done, ReadError e) # rest
         \<and> list_all (discarded (parse_body net) a) pre \<longrightarrow> doICMP net ctx a = Some False)
   \<and> (\<forall>pre r rest.
         ReadFrom net = pre @ (True, r) # rest
         \<and> list_all (discarded (parse_body net) a) pre \<longrightarrow> doICMP net ctx a = Some False)
   \<and> (deadline ctx \<noteq> None \<and> list_all (discarded (parse_body net) a) (ReadFrom net) \<longrightarrow>
         doICMP net ctx a = Some False)
   \<and> (deadline ctx \<noteq> None \<longrightarrow> doICMP net ctx a = Some True \<or> doICMP net ctx a = Some False)
   \<and> (doICMP net ctx a = None \<longleftrightarrow>
         (deadline ctx = None \<and> ListenPacket net (icmpNetwork a) (icmpLaddr a)
          \<and> (\<exists>b. Marshal net (echoRequest net a) = Some b \<and> WriteTo net b a)
          \<and> list_all (discarded (parse_body net) a) (ReadFrom net)))"
proof -
  have p1: "\<not> ListenPacket net (icmpNetwork a) (icmpLaddr a) \<longrightarrow> doICMP net ctx a = Some False"
    by (simp add: doICMP_phases)
  have p2: "Marshal net (echoRequest net a) = None \<longrightarrow> doICMP net ctx a = Some False"
    by (simp add: doICMP_phases)
  have p3: "\<forall>b. Marshal net (echoRequest net a) = Some b \<and> \<not> WriteTo net b a \<longrightarrow>
         doICMP net ctx a = Some False"
    by (auto simp: doICMP_phases)
  have loop_false: "doICMP net ctx a = Some False"
    if "readLoop (deadline ctx \<noteq> None) (parse_body net) a (ReadFrom net) = Some False"
    using that by (simp add: doICMP_phases split: option.splits)
  have p4: "\<forall>pre ctx_done e rest.
         ReadFrom net = pre @ (ctx_done, ReadError e) # rest
         \<and> list_all (discarded (parse_body net) a) pre \<longrightarrow> doICMP net ctx a = Some False"
  proof (intro allI impI, elim conjE)
    fix pre ctx_done e rest
    assume "ReadFrom net = pre @ (ctx_done, ReadError e) # rest"
      and "list_all (discarded (parse_body net) a) pre"
    then have "readLoop (deadline ctx \<noteq> None) (parse_body net) a (ReadFrom net) = Some False"
      by (simp add: readLoop_discards readLoop_error del: readLoop.simps)
    then show "doICMP net ctx a = Some False" by (rule loop_false)
  qed
  have p5: "\<forall>pre r rest.
         ReadFrom net = pre @ (True, r) # rest
         \<and> list_all (discarded (parse_body net) a) pre \<longrightarrow> doICMP net ctx a = Some False"
  proof (intro allI impI, elim conjE)
    fix pre r rest
    assume "ReadFrom net = pre @ (True, r) # rest"
      and "list_all (discarded (parse_body net) a) pre"
    then have "readLoop (deadline ctx \<noteq> None) (parse_body net) a (ReadFrom net) = Some False"
      by (simp add: readLoop_discards readLoop_ctx_done del: readLoop.simps)
    then show "doICMP net ctx a = Some False" by (rule loop_false)
  qed
  have p6: "deadline ctx \<noteq> None \<and> list_all (discarded (parse_body net) a) (ReadFrom net) \<longrightarrow>
         doICMP net ctx a = Some False"
  proof (intro impI, elim conjE)
    assume d: "deadline ctx \<noteq> None"
      and "list_all (discarded (parse_body net) a) (ReadFrom net)"
    then have "readLoop True (parse_body net) a (ReadFrom net @ []) = Some False"
      by (simp only: readLoop_discards) simp
    with d have "readLoop (deadline ctx \<noteq> None) (parse_body net) a (ReadFrom net) = Some False"
      by simp
    then show "doICMP net ctx a = Some False" by (rule loop_false)
  qed
  have p7: "deadline ctx \<noteq> None \<longrightarrow> doICMP net ctx a = Some True \<or> doICMP net ctx a = Some False"
    using doICMP_returns [of ctx net a] by auto
  show ?thesis
    using p1 p2 p3 p4 p5 p6 p7 doICMP_None_iff [of net ctx a]
    by (intro conjI) assumption+
qed

theorem doICMP_failure_is_false_witness:
  "doICMP (quiet_net \<lparr> ListenPacket := (\<lambda>network laddr. False) \<rparr>) \<lparr> deadline = None, cancelled = None \<rparr>
      [192, 0, 2, 1] = Some False
   \<and> doICMP (quiet_net \<lparr> Marshal := (\<lambda>m. None) \<rparr>) \<lparr> deadline = None, cancelled = None \<rparr> [192, 0, 2, 1] = Some False
   \<and> doICMP (quiet_net \<lparr> WriteTo := (\<lambda>b a. False) \<rparr>) \<lparr> deadline = None, cancelled = None \<rparr> [192, 0, 2, 1]
       = Some False
   \<and> doICMP (quiet_net \<lparr> ReadFrom := [(False, ReadError DeadlineExceeded)] \<rparr>)
       \<lparr> deadline = None, cancelled = None \<rparr> [192, 0, 2, 1] = Some False
   \<and> doICMP (quiet_net \<lparr> ReadFrom := [(True, Packet [])] \<rparr>) \<lparr> deadline = None, cancelled = None \<rparr> [192, 0, 2, 1]
       = Some False
   \<and> doICMP quiet_net \<lparr> deadline = Some 2200, cancelled = None \<rparr> [192, 0, 2, 1] = Some False
   \<and> doICMP answering_net \<lparr> deadline = Some 2200, cancelled = None \<rparr> [192, 0, 2, 1] = Some True"
proof -
  let ?a = "[192, 0, 2, 1] :: ip"
  let ?none = "\<lparr> deadline = None, cancelled = None \<rparr>"
  let ?some = "\<lparr> deadline = Some 2200, cancelled = None \<rparr>"
  note t = doICMP_failure_is_false
  have c1: "doICMP (quiet_net \<lparr> ListenPacket := (\<lambda>network laddr. False) \<rparr>) ?none ?a = Some False"
    by (rule t [THEN conjunct1, rule_format]) simp
  have c2: "doICMP (quiet_net \<lparr> Marshal := (\<lambda>m. None) \<rparr>) ?none ?a = Some False"
    by (rule t [THEN conjunct2, THEN conjunct1, rule_format]) simp
  have c3: "doICMP (quiet_net \<lparr> WriteTo := (\<lambda>b a. False) \<rparr>) ?none ?a = Some False"
    by (rule t [THEN conjunct2, THEN conjunct2, THEN conjunct1, rule_format,
          of _ _ "[8, 0, 0, 0, 0, 0, 0, 1, 112, 105, 110, 103]"])
       (simp add: quiet_net_def)
  have c4: "doICMP (quiet_net \<lparr> ReadFrom := [(False, ReadError DeadlineExceeded)] \<rparr>) ?none ?a
      = Some False"
    by (rule t [THEN conjunct2, THEN conjunct2, THEN conjunct2, THEN conjunct1, rule_format,
          of _ "[]" False DeadlineExceeded "[]"]) simp
  have c5: "doICMP (quiet_net \<lparr> ReadFrom := [(True, Packet [])] \<rparr>) ?none ?a = Some False"
    by (rule t [THEN conjunct2, THEN conjunct2, THEN conjunct2, THEN conjunct2, THEN conjunct1,
          rule_format, of _ "[]" "Packet []" "[]"]) simp
  have c6: "doICMP quiet_net ?some ?a = Some False"
    by (rule t [THEN conjunct2, THEN conjunct2, THEN conjunct2, THEN conjunct2, THEN conjunct2,
          THEN conjunct1, rule_format]) (simp add: quiet_net_def)
  have "doICMP answering_net ?some ?a \<noteq> Some False"
    by (simp add: doICMP_def answering_net_def quiet_net_def icmp_eval)
  moreover have "doICMP answering_net ?some ?a = Some True \<or> doICMP answering_net ?some ?a = Some False"
    by (rule t [THEN conjunct2, THEN conjunct2, THEN conjunct2, THEN conjunct2, THEN conjunct2,
          THEN conjunct2, THEN conjunct1, rule_format]) simp
  ultimately have c7: "doICMP answering_net ?some ?a = Some True" by blast
  show ?thesis using c1 c2 c3 c4 c5 c6 c7 by simp
qed

text \<open>
  The claim as first stated, that \<open>doICMP\<close> returns a boolean under every context,
  fails: under a context with no deadline, on the quiet network, it never returns.
\<close>

theorem doICMP_may_block: "doICMP quiet_net \<lparr> deadline = None, cancelled = None \<rparr> [192, 0, 2, 1] = None"
  by (simp add: doICMP_def quiet_net_def To4_def)
section \<open>Contexts, and the socket of a probe under a context\<close>

lemma isDone_mono: "isDone ctx t \<Longrightarrow> t \<le> t' \<Longrightarrow> isDone ctx t'"
  by (auto simp: isDone_def split: option.splits)

lemma isDone_iff:
  "isDone ctx t \<longleftrightarrow> expired ctx t \<or> (\<exists>c. cancelled ctx = Some c \<and> c \<le> t)"
  by (auto simp: expired_def isDone_def doneAt_def split: option.splits)

lemma WithTimeout_deadline: "deadline (WithTimeout parent now d) \<noteq> None"
  by (simp add: WithTimeout_def)

lemma expired_WithTimeout:
  "expired (WithTimeout parent now d) t \<longleftrightarrow> expired parent t \<or> now + d \<le> t"
  by (auto simp: expired_def WithTimeout_def split: option.splits)

lemma isDone_WithTimeout:
  "isDone (WithTimeout parent now d) t \<longleftrightarrow> isDone parent t \<or> now + d \<le> t"
proof -
  have "cancelled (WithTimeout parent now d) = cancelled parent"
    by (simp add: WithTimeout_def)
  then show ?thesis
    by (simp only: isDone_iff expired_WithTimeout) blast
qed

lemma doneAt_WithTimeout:
  "\<exists>t. doneAt (WithTimeout parent now d) = Some t \<and> t \<le> now + d
        \<and> (\<forall>t'. doneAt parent = Some t' \<longrightarrow> t \<le> t')"
  by (auto simp: doneAt_def WithTimeout_def split: option.splits)

lemma readAt_0: "readAt w k 0 = probe_at w k"
  by (simp add: readAt_def)

lemma readAt_Suc: "readAt w k (Suc i) = readAt w k i + read_wait w k i"
  by (simp add: readAt_def)

lemma readAt_mono: "i \<le> j \<Longrightarrow> readAt w k i \<le> readAt w k j"
proof (induction j)
  case 0
  then show ?case by simp
next
  case (Suc j)
  then show ?case by (cases "i = Suc j") (auto simp: readAt_Suc)
qed

lemma socket_simps:
  "ListenPacket (socket w ctx k) = ListenPacket (net_of w k)"
  "Marshal (socket w ctx k) = Marshal (net_of w k)"
  "Getpid (socket w ctx k) = Getpid (net_of w k)"
  "parse_body (socket w ctx k) = parse_body (net_of w k)"
  "WriteTo (socket w ctx k) b a \<longleftrightarrow> WriteTo (net_of w k) b a \<and> \<not> expired ctx (probe_at w k)"
  "ReadFrom (socket w ctx k) = map (stamp w ctx k) (enumerate 0 (ReadFrom (net_of w k)))"
  by (simp_all add: socket_def)

lemma readLoop_stamped:
  "readLoop d body_ok a (map (stamp w ctx k) (enumerate n turns)) = Some True \<Longrightarrow>
     \<not> expired ctx (readAt w k (n + readsMade body_ok a (map (stamp w ctx k) (enumerate n turns))))
     \<and> 0 < readsMade body_ok a (map (stamp w ctx k) (enumerate n turns))
     \<and> \<not> isDone ctx (readAt w k (n + readsMade body_ok a (map (stamp w ctx k) (enumerate n turns)) - 1))"
proof (induction turns arbitrary: n)
  case Nil
  then show ?case by (simp split: if_splits)
next
  case (Cons turn turns)
  obtain c r where t: "turn = (c, r)" by (cases turn)
  let ?rest = "map (stamp w ctx k) (enumerate (Suc n) turns)"
  from Cons.prems have nd: "\<not> c" "\<not> isDone ctx (readAt w k n)"
    by (auto simp: t stamp_def split: if_splits)
  from Cons.prems nd have ne: "\<not> expired ctx (readAt w k (Suc n))"
    by (auto simp: t stamp_def split: if_splits)
  from Cons.prems nd ne obtain b where r: "r = Packet b"
    by (cases r) (auto simp: t stamp_def split: if_splits)
  show ?case
  proof (cases "ParseMessage body_ok (getProto a) b = Some (echoReplyFor a)")
    case True
    then have "readsMade body_ok a (map (stamp w ctx k) (enumerate n (turn # turns))) = 1"
      using nd ne ParseMessage_own_protocol [OF True]
      by (simp add: t r stamp_def)
    with nd ne show ?thesis by simp
  next
    case False
    then have loop: "readLoop d body_ok a ?rest = Some True"
      using Cons.prems nd ne by (simp add: t r stamp_def readLoop_packet del: readLoop.simps)
    have made: "readsMade body_ok a (map (stamp w ctx k) (enumerate n (turn # turns)))
        = Suc (readsMade body_ok a ?rest)"
    proof (cases "ParseMessage body_ok (getProto a) b")
      case None
      then show ?thesis using nd ne by (simp add: t r stamp_def)
    next
      case (Some ty)
      with False ParseMessage_own_protocol [OF Some] show ?thesis
        using nd ne by (simp add: t r stamp_def)
    qed
    from Cons.IH [OF loop] show ?thesis
      by (simp only: made) (auto simp: Suc_diff_Suc)
  qed
qed

lemma doICMP_socket_true:
  assumes "doICMP (socket w ctx k) ctx a = Some True"
  shows "\<not> expired ctx (probeEnd w ctx k a)"
    and "\<not> isDone ctx (probe_at w k)"
    and "probe_at w k \<le> probeEnd w ctx k a"
proof -
  let ?turns = "map (stamp w ctx k) (enumerate 0 (ReadFrom (net_of w k)))"
  let ?n = "readsMade (parse_body (net_of w k)) a ?turns"
  from assms have "readLoop (deadline ctx \<noteq> None) (parse_body (net_of w k)) a ?turns = Some True"
    by (auto simp: doICMP_phases socket_simps split: if_splits option.splits)
  from readLoop_stamped [OF this]
  have e: "\<not> expired ctx (readAt w k ?n)" and p: "0 < ?n"
    and d: "\<not> isDone ctx (readAt w k (?n - 1))"
    by simp_all
  from e show "\<not> expired ctx (probeEnd w ctx k a)"
    by (simp add: probeEnd_def socket_simps)
  from d isDone_mono [of ctx "readAt w k 0" "readAt w k (?n - 1)"] readAt_mono [of 0 "?n - 1" w k]
  show "\<not> isDone ctx (probe_at w k)"
    by (auto simp: readAt_0)
  from readAt_mono [of 0 ?n w k] show "probe_at w k \<le> probeEnd w ctx k a"
    by (simp add: probeEnd_def socket_simps readAt_0)
qed


section \<open>The goroutines of the two races and of the resolver\<close>

lemma echoAttempt_cases:
  assumes "deadline ctx2 \<noteq> None"
  shows "echoAttempt w ctx2 (i, a) = (False, [Refused ICMP]) \<and> \<not> admit w (Echo i a)
         \<or> (\<exists>b. echoAttempt w ctx2 (i, a) = (b, [Acquired ICMP, EchoProbe a (Some b), Released ICMP])
                \<and> admit w (Echo i a) \<and> doICMP (socket w ctx2 (Echo i a)) ctx2 a = Some b)"
proof (cases "admit w (Echo i a)")
  case False
  then show ?thesis by (simp add: echoAttempt_def)
next
  case True
  from doICMP_returns [OF assms] obtain b where "doICMP (socket w ctx2 (Echo i a)) ctx2 a = Some b"
    by blast
  with True show ?thesis by (simp add: echoAttempt_def)
qed

lemma connectAttempt_cases:
  "connectAttempt w ctx2 dialNet (i, a) p = (False, [Refused TCP]) \<and> \<not> admit w (Connect i a p)
   \<or> connectAttempt w ctx2 dialNet (i, a) p
        = (True, [Acquired TCP, Dial dialNet a p None, Close, Released TCP])
      \<and> admit w (Connect i a p)
      \<and> DialContext 1200 ctx2 (dial_at w (Connect i a p)) (fate_of w (Connect i a p)) = None
   \<or> (\<exists>e. connectAttempt w ctx2 dialNet (i, a) p
          = (False, [Acquired TCP, Dial dialNet a p (Some e), Released TCP])
        \<and> admit w (Connect i a p)
        \<and> DialContext 1200 ctx2 (dial_at w (Connect i a p)) (fate_of w (Connect i a p)) = Some e)"
  by (cases "admit w (Connect i a p)";
      cases "DialContext 1200 ctx2 (dial_at w (Connect i a p)) (fate_of w (Connect i a p))")
     (simp_all add: connectAttempt_def)

lemma echoAttempt_scoped:
  "deadline ctx2 \<noteq> None \<Longrightarrow> slot_scoped ICMP (snd (echoAttempt w ctx2 ia))"
proof -
  assume d: "deadline ctx2 \<noteq> None"
  obtain i a where ia: "ia = (i, a)" by (cases ia)
  from echoAttempt_cases [OF d, of w i a] show ?thesis
    unfolding ia by (auto simp: slot_scoped_def)
qed

lemma connectAttempt_scoped: "slot_scoped TCP (snd (connectAttempt w ctx2 dialNet ia p))"
proof -
  obtain i a where ia: "ia = (i, a)" by (cases ia)
  from connectAttempt_cases [of w ctx2 dialNet i a p] show ?thesis
    unfolding ia by (auto simp: slot_scoped_def)
qed

lemma raceEcho_scoped: "list_all (slot_scoped ICMP) (snd (raceEcho w ctx now ips))"
  by (simp add: raceEcho_def Let_def list_all_iff echoAttempt_scoped WithTimeout_deadline)

lemma tcpConnectRace_scoped:
  "list_all (slot_scoped TCP) (snd (tcpConnectRace w ctx now ips family ports))"
  by (auto simp: tcpConnectRace_def Let_def list_all_iff connectAttempt_scoped)

lemma lookupGoroutine_scoped: "slot_scoped DNS (snd (lookupGoroutine w network input))"
  by (simp add: lookupGoroutine_def slot_scoped_def)

section \<open>The gate invariant\<close>

lemma filter_update_length:
  "i < length xs \<Longrightarrow>
   length (filter P (xs[i := y])) + (if P (xs ! i) then 1 else 0)
     = length (filter P xs) + (if P y then 1 else 0)"
proof (induction xs arbitrary: i)
  case Nil
  then show ?case by simp
next
  case (Cons x xs)
  show ?case
  proof (cases i)
    case 0
    then show ?thesis by simp
  next
    case (Suc j)
    with Cons.prems have "j < length xs" by simp
    from Cons.IH [OF this] Suc show ?thesis by simp
  qed
qed

lemma holding_positive:
  "i < length xs \<Longrightarrow> P (xs ! i) \<Longrightarrow> 0 < length (filter P xs)"
  by (metis filter_empty_conv length_greater_0_conv nth_mem)

lemma list_all_update: "list_all P xs \<Longrightarrow> P y \<Longrightarrow> list_all P (xs[i := y])"
  by (induction xs arbitrary: i) (auto split: nat.splits)

lemma sum_map_update:
  fixes f :: "'a \<Rightarrow> nat"
  shows "i < length xs \<Longrightarrow> sum_list (map f (xs[i := y])) + f (xs ! i) = sum_list (map f xs) + f y"
proof (induction xs arbitrary: i)
  case Nil
  then show ?case by simp
next
  case (Cons x xs)
  show ?case
  proof (cases i)
    case 0
    then show ?thesis by simp
  next
    case (Suc j)
    with Cons.prems have "j < length xs" by simp
    from Cons.IH [OF this] Suc show ?thesis by simp
  qed
qed

lemma step_inv:
  assumes "gate_inv cap s" "step cap s ev = Some s'"
  shows "gate_inv cap s'"
proof (cases ev)
  case (Select i c)
  let ?gs = "goroutines s"
  from assms(2) Select have i: "i < length ?gs" and w: "at (?gs ! i) = Waiting"
    by (auto simp: step_def split: if_splits)
  from assms(1) have bal: "list_all balanced ?gs" by (simp add: gate_inv_def)
  with i have bi: "balanced (?gs ! i)" by (simp add: list_all_length)
  with w have c0: "acquires (?gs ! i) = 0" "releases (?gs ! i) = 0" by (auto simp: balanced_def)
  show ?thesis
  proof (cases c)
    case SendCase
    with assms(2) Select i w have room: "buffered s < cap"
      and s': "s' = \<lparr> buffered = Suc (buffered s),
                       goroutines = ?gs[i := (?gs ! i)\<lparr> at := Holding, acquires := Suc (acquires (?gs ! i)) \<rparr>] \<rparr>"
      by (auto simp: step_def acquire_def split: if_splits)
    let ?g = "(?gs ! i)\<lparr> at := Holding, acquires := Suc (acquires (?gs ! i)) \<rparr>"
    have h: "holding s' = Suc (holding s)"
      using filter_update_length [OF i, of "\<lambda>g. at g = Holding" ?g] w
      by (simp add: holding_def s')
    have b: "list_all balanced (goroutines s')"
      using bal c0 by (simp add: s' list_all_update balanced_def)
    have a: "sum_list (map acquires (goroutines s')) = Suc (sum_list (map acquires ?gs))"
      using sum_map_update [OF i, of acquires ?g] c0 by (simp add: s')
    have r: "sum_list (map releases (goroutines s')) = sum_list (map releases ?gs)"
      using sum_map_update [OF i, of releases ?g] by (simp add: s')
    have n: "buffered s' = Suc (buffered s)" by (simp add: s')
    show ?thesis
      using assms(1) room h b a r n unfolding gate_inv_def by linarith
  next
    case DoneCase
    with assms(2) Select i w have
      s': "s' = \<lparr> buffered = buffered s, goroutines = ?gs[i := (?gs ! i)\<lparr> at := Returned \<rparr>] \<rparr>"
      by (auto simp: step_def acquire_def split: if_splits)
    let ?g = "(?gs ! i)\<lparr> at := Returned \<rparr>"
    have h: "holding s' = holding s"
      using filter_update_length [OF i, of "\<lambda>g. at g = Holding" ?g] w
      by (simp add: holding_def s')
    have b: "list_all balanced (goroutines s')"
      using bal c0 by (simp add: s' list_all_update balanced_def)
    have a: "sum_list (map acquires (goroutines s')) = sum_list (map acquires ?gs)"
      using sum_map_update [OF i, of acquires ?g] by (simp add: s')
    have r: "sum_list (map releases (goroutines s')) = sum_list (map releases ?gs)"
      using sum_map_update [OF i, of releases ?g] by (simp add: s')
    have n: "buffered s' = buffered s" by (simp add: s')
    show ?thesis
      using assms(1) h b a r n unfolding gate_inv_def by linarith
  qed
next
  case (BodyEnds i e)
  let ?gs = "goroutines s"
  from assms(2) BodyEnds have i: "i < length ?gs" and w: "at (?gs ! i) = Holding"
    by (auto simp: step_def split: if_splits)
  from assms(1) have bal: "list_all balanced ?gs" by (simp add: gate_inv_def)
  with i have bi: "balanced (?gs ! i)" by (simp add: list_all_length)
  with w have c0: "acquires (?gs ! i) = 1" "releases (?gs ! i) = 0" by (auto simp: balanced_def)
  from assms(2) BodyEnds i w have pos: "buffered s \<noteq> 0"
    and s': "s' = \<lparr> buffered = buffered s - 1,
                     goroutines = ?gs[i := (?gs ! i)\<lparr> at := Returned, releases := Suc (releases (?gs ! i)) \<rparr>] \<rparr>"
    by (auto simp: step_def release_def split: if_splits)
  let ?g = "(?gs ! i)\<lparr> at := Returned, releases := Suc (releases (?gs ! i)) \<rparr>"
  have h: "Suc (holding s') = holding s"
    using filter_update_length [OF i, of "\<lambda>g. at g = Holding" ?g] w
    by (simp add: holding_def s')
  have b: "list_all balanced (goroutines s')"
    using bal c0 by (simp add: s' list_all_update balanced_def)
  have a: "sum_list (map acquires (goroutines s')) = sum_list (map acquires ?gs)"
    using sum_map_update [OF i, of acquires ?g] by (simp add: s')
  have r: "sum_list (map releases (goroutines s')) = Suc (sum_list (map releases ?gs))"
    using sum_map_update [OF i, of releases ?g] c0 by (simp add: s')
  have n: "Suc (buffered s') = buffered s" using pos by (simp add: s')
  show ?thesis
    using assms(1) h b a r n unfolding gate_inv_def by linarith
qed

lemma run_inv: "gate_inv cap s \<Longrightarrow> run cap s evs = Some s' \<Longrightarrow> gate_inv cap s'"
proof (induction evs arbitrary: s)
  case Nil
  then show ?case by simp
next
  case (Cons ev evs)
  from Cons.prems(2) obtain t where t: "step cap s ev = Some t" and r: "run cap t evs = Some s'"
    by (auto split: option.splits)
  from step_inv [OF Cons.prems(1) t] have "gate_inv cap t" .
  from Cons.IH [OF this r] show ?case .
qed

lemma start_inv: "gate_inv cap (start k)"
  by (simp add: gate_inv_def start_def holding_def balanced_def list_all_length)

lemma release_enabled:
  assumes "gate_inv cap s" "i < length (goroutines s)" "at (goroutines s ! i) = Holding"
  shows "\<exists>t. step cap s (BodyEnds i e) = Some t \<and> buffered t = buffered s - 1
            \<and> at (goroutines t ! i) = Returned"
proof -
  have "0 < holding s"
    unfolding holding_def using assms(2,3) by (rule holding_positive)
  with assms(1) have "buffered s \<noteq> 0" by (simp add: gate_inv_def)
  with assms(2,3) show ?thesis by (simp add: step_def release_def)
qed

lemma all_returned_empty:
  assumes "gate_inv cap s" "list_all (\<lambda>g. at g = Returned) (goroutines s)"
  shows "buffered s = 0"
proof -
  have "filter (\<lambda>g. at g = Holding) (goroutines s) = []"
    using assms(2) by (auto simp: filter_empty_conv list_all_iff)
  with assms(1) show ?thesis by (simp add: gate_inv_def holding_def)
qed

text \<open>
  Claim C9. Whatever the schedule of the goroutines at a gate, the buffer never holds
  more than the capacity, it holds exactly one value for each goroutine that holds a
  slot, every goroutine has released exactly what it acquired once it returned (and
  acquires at most once), nothing is left in the buffer when all have returned, and a
  goroutine that holds a slot can always end, however its body ends, which gives the
  slot back. The goroutines of \<open>raceEcho\<close>, of \<open>tcpConnectRace\<close> and of the
  resolver all keep to this scope: refused, or acquire first and release last.
\<close>

theorem gate_slots_released_once:
  "(run cap (start k) evs = Some s \<longrightarrow>
      buffered s \<le> cap
      \<and> buffered s = holding s
      \<and> list_all balanced (goroutines s)
      \<and> sum_list (map acquires (goroutines s))
          = sum_list (map releases (goroutines s)) + buffered s
      \<and> (list_all (\<lambda>g. at g = Returned) (goroutines s) \<longrightarrow> buffered s = 0)
      \<and> (\<forall>i e. i < length (goroutines s) \<and> at (goroutines s ! i) = Holding \<longrightarrow>
            (\<exists>t. step cap s (BodyEnds i e) = Some t \<and> buffered t = buffered s - 1
                 \<and> at (goroutines t ! i) = Returned)))
   \<and> list_all (slot_scoped ICMP) (snd (raceEcho w ctx now ips))
   \<and> list_all (slot_scoped TCP) (snd (tcpConnectRace w ctx now ips family ports))
   \<and> slot_scoped DNS (snd (lookupGoroutine w network input))"
proof -
  have machine: "run cap (start k) evs = Some s \<longrightarrow>
      buffered s \<le> cap
      \<and> buffered s = holding s
      \<and> list_all balanced (goroutines s)
      \<and> sum_list (map acquires (goroutines s))
          = sum_list (map releases (goroutines s)) + buffered s
      \<and> (list_all (\<lambda>g. at g = Returned) (goroutines s) \<longrightarrow> buffered s = 0)
      \<and> (\<forall>i e. i < length (goroutines s) \<and> at (goroutines s ! i) = Holding \<longrightarrow>
            (\<exists>t. step cap s (BodyEnds i e) = Some t \<and> buffered t = buffered s - 1
                 \<and> at (goroutines t ! i) = Returned))"
  proof
    assume "run cap (start k) evs = Some s"
    with start_inv have inv: "gate_inv cap s" by (rule run_inv)
    then have basic: "buffered s \<le> cap" "buffered s = holding s" "list_all balanced (goroutines s)"
      "sum_list (map acquires (goroutines s)) = sum_list (map releases (goroutines s)) + buffered s"
      by (simp_all add: gate_inv_def)
    have empty: "list_all (\<lambda>g. at g = Returned) (goroutines s) \<longrightarrow> buffered s = 0"
      using all_returned_empty [OF inv] by blast
    have live: "\<forall>i e. i < length (goroutines s) \<and> at (goroutines s ! i) = Holding \<longrightarrow>
            (\<exists>t. step cap s (BodyEnds i e) = Some t \<and> buffered t = buffered s - 1
                 \<and> at (goroutines t ! i) = Returned)"
      using release_enabled [OF inv] by blast
    from basic empty live show "buffered s \<le> cap
      \<and> buffered s = holding s
      \<and> list_all balanced (goroutines s)
      \<and> sum_list (map acquires (goroutines s))
          = sum_list (map releases (goroutines s)) + buffered s
      \<and> (list_all (\<lambda>g. at g = Returned) (goroutines s) \<longrightarrow> buffered s = 0)
      \<and> (\<forall>i e. i < length (goroutines s) \<and> at (goroutines s ! i) = Holding \<longrightarrow>
            (\<exists>t. step cap s (BodyEnds i e) = Some t \<and> buffered t = buffered s - 1
                 \<and> at (goroutines t ! i) = Returned))"
      by (intro conjI) assumption+
  qed
  show ?thesis
    using machine raceEcho_scoped [of w ctx now ips]
      tcpConnectRace_scoped [of w ctx now ips family ports]
      lookupGoroutine_scoped [of w network input]
    by (intro conjI) assumption+
qed


lemmas gate_eval = start_def step_def acquire_def release_def holding_def balanced_def

theorem gate_slots_released_once_witness:
  "run 1 (start 2) [Select 0 SendCase, Select 1 DoneCase, BodyEnds 0 DeadlineCancelled]
     = Some \<lparr> buffered = 0,
              goroutines = [\<lparr> at = Returned, acquires = 1, releases = 1 \<rparr>,
                            \<lparr> at = Returned, acquires = 0, releases = 0 \<rparr>] \<rparr>
   \<and> run 1 (start 2) [Select 0 SendCase]
       = Some \<lparr> buffered = 1,
                goroutines = [\<lparr> at = Holding, acquires = 1, releases = 0 \<rparr>,
                              \<lparr> at = Waiting, acquires = 0, releases = 0 \<rparr>] \<rparr>
   \<and> holding \<lparr> buffered = 1,
                goroutines = [\<lparr> at = Holding, acquires = 1, releases = 0 \<rparr>,
                              \<lparr> at = Waiting, acquires = 0, releases = 0 \<rparr>] \<rparr> = 1
   \<and> (\<exists>t. step 1 \<lparr> buffered = 1,
                     goroutines = [\<lparr> at = Holding, acquires = 1, releases = 0 \<rparr>,
                                   \<lparr> at = Waiting, acquires = 0, releases = 0 \<rparr>] \<rparr>
              (BodyEnds 0 ProbeFailed) = Some t \<and> buffered t = 0)"
proof -
  let ?s1 = "\<lparr> buffered = 1,
                goroutines = [\<lparr> at = Holding, acquires = 1, releases = 0 \<rparr>,
                              \<lparr> at = Waiting, acquires = 0, releases = 0 \<rparr>] \<rparr>"
  let ?s3 = "\<lparr> buffered = 0,
                goroutines = [\<lparr> at = Returned, acquires = 1, releases = 1 \<rparr>,
                              \<lparr> at = Returned, acquires = 0, releases = 0 \<rparr>] \<rparr>"
  have r1: "run 1 (start 2) [Select 0 SendCase] = Some ?s1"
    by (simp add: gate_eval numeral_2_eq_2)
  have r3: "run 1 (start 2) [Select 0 SendCase, Select 1 DoneCase, BodyEnds 0 DeadlineCancelled]
      = Some ?s3"
    by (simp add: gate_eval numeral_2_eq_2)
  note t1 = gate_slots_released_once [of 1 2 "[Select 0 SendCase]" ?s1, THEN conjunct1, rule_format, OF r1]
  have h: "holding ?s1 = 1"
    using t1 by simp
  have "(0::nat) < length (goroutines ?s1) \<and> at (goroutines ?s1 ! 0) = Holding" by simp
  with t1 have "\<exists>t. step 1 ?s1 (BodyEnds 0 ProbeFailed) = Some t \<and> buffered t = buffered ?s1 - 1
      \<and> at (goroutines t ! 0) = Returned"
    by blast
  then have live: "\<exists>t. step 1 ?s1 (BodyEnds 0 ProbeFailed) = Some t \<and> buffered t = 0"
    by auto
  show ?thesis using r1 r3 h live by simp
qed

section \<open>The TCP attempt and its budget\<close>

lemma dialLimit_iff:
  "t < dialLimit timeout ctx now \<longleftrightarrow> t < now + timeout \<and> \<not> isDone ctx t"
  by (auto simp: dialLimit_def isDone_def split: option.splits)

lemma dialLimit_le:
  "dialLimit timeout ctx now \<le> now + timeout"
  "deadline ctx = Some t \<Longrightarrow> dialLimit timeout ctx now \<le> t"
  "cancelled ctx = Some c \<Longrightarrow> dialLimit timeout ctx now \<le> c"
  by (auto simp: dialLimit_def doneAt_def split: option.splits)

lemma dialLimit_stage:
  "dialLimit timeout (WithTimeout ctx now d) t0 \<le> now + d"
  using doneAt_WithTimeout [of ctx now d] by (auto simp: dialLimit_def)

lemma DialContext_None_iff:
  "DialContext timeout ctx t0 fate = None
     \<longleftrightarrow> (\<exists>d. fate = Established d \<and> t0 + d < dialLimit timeout ctx t0)"
  by (cases fate) (simp_all add: DialContext_def)

lemma connectAttempt_fst:
  "fst (connectAttempt w ctx2 dialNet (i, a) p)
     \<longleftrightarrow> admit w (Connect i a p)
         \<and> DialContext 1200 ctx2 (dial_at w (Connect i a p)) (fate_of w (Connect i a p)) = None"
  by (simp add: connectAttempt_def split: option.splits)

lemma stage_budget_iff:
  "t0 + d < dialLimit 1200 (WithTimeout ctx now 2200) t0
     \<longleftrightarrow> d < 1200 \<and> t0 + d < now + 2200 \<and> (\<forall>t. deadline ctx = Some t \<longrightarrow> t0 + d < t)
         \<and> (\<forall>c. cancelled ctx = Some c \<longrightarrow> t0 + d < c)"
proof -
  have "isDone ctx t \<longleftrightarrow> (\<exists>x. deadline ctx = Some x \<and> x \<le> t) \<or> (\<exists>c. cancelled ctx = Some c \<and> c \<le> t)"
    for t
    by (auto simp: isDone_iff expired_def split: option.splits)
  then show ?thesis
    by (simp only: dialLimit_iff isDone_WithTimeout) (meson add_less_cancel_left leD not_le_imp_less)
qed

lemma connectAttempt_in_time:
  "fst (connectAttempt w ctx2 dialNet (i, a) p) \<Longrightarrow> \<not> isDone ctx2 (connectedAt w (Connect i a p))"
  by (auto simp: connectAttempt_fst DialContext_None_iff dialLimit_iff connectedAt_def)

lemma tcpConnectRace_fst:
  "fst (tcpConnectRace w ctx now ips family ports)
     \<longleftrightarrow> (\<exists>ia \<in> set (enumerate 0 ips). \<exists>p \<in> set ports.
            fst (connectAttempt w (WithTimeout ctx now 2200)
                   (if family = ''6'' then ''tcp6'' else ''tcp4'') ia p))"
  using connectAttempt_in_time [of w "WithTimeout ctx now 2200"]
  by (fastforce simp: tcpConnectRace_def Let_def selectDone_def list_ex_iff)

text \<open>
  Claim C8. An attempt of the TCP stage that got its slot succeeds exactly when the
  connection is established less than 1200 ms after the dial started and before the
  stage's context is done, which it is 2200 ms after the stage started, or at the
  deadline or the cancellation of the caller's context if that is earlier; the limit
  of a dial is never later than any of these. After a connection the attempt does one
  thing with it, closing it, and then releases the slot. Every error of the dial,
  whatever its kind, gives the same failure. The stage returns true exactly when one
  of its attempts succeeds.
\<close>

theorem tcp_attempt_within_budget:
  "(fst (connectAttempt w (WithTimeout ctx now 2200) dialNet (i, a) p) \<longleftrightarrow>
      admit w (Connect i a p)
      \<and> (\<exists>d. fate_of w (Connect i a p) = Established d
             \<and> d < 1200
             \<and> dial_at w (Connect i a p) + d < now + 2200
             \<and> (\<forall>t. deadline ctx = Some t \<longrightarrow> dial_at w (Connect i a p) + d < t)
             \<and> (\<forall>c. cancelled ctx = Some c \<longrightarrow> dial_at w (Connect i a p) + d < c)))
   \<and> (fst (connectAttempt w (WithTimeout ctx now 2200) dialNet (i, a) p) \<longrightarrow>
         snd (connectAttempt w (WithTimeout ctx now 2200) dialNet (i, a) p)
           = [Acquired TCP, Dial dialNet a p None, Close, Released TCP])
   \<and> (\<forall>e. admit w (Connect i a p)
            \<and> DialContext 1200 (WithTimeout ctx now 2200) (dial_at w (Connect i a p))
                 (fate_of w (Connect i a p)) = Some e \<longrightarrow>
         connectAttempt w (WithTimeout ctx now 2200) dialNet (i, a) p
           = (False, [Acquired TCP, Dial dialNet a p (Some e), Released TCP]))
   \<and> (\<not> admit w (Connect i a p) \<longrightarrow>
         connectAttempt w (WithTimeout ctx now 2200) dialNet (i, a) p = (False, [Refused TCP]))
   \<and> dialLimit 1200 (WithTimeout ctx now 2200) t0 \<le> t0 + 1200
   \<and> dialLimit 1200 (WithTimeout ctx now 2200) t0 \<le> now + 2200
   \<and> (\<forall>t. deadline ctx = Some t \<longrightarrow> dialLimit 1200 (WithTimeout ctx now 2200) t0 \<le> t)
   \<and> (\<forall>c. cancelled ctx = Some c \<longrightarrow> dialLimit 1200 (WithTimeout ctx now 2200) t0 \<le> c)
   \<and> (fst (tcpConnectRace w ctx now ips family ports) \<longleftrightarrow>
         (\<exists>ia \<in> set (enumerate 0 ips). \<exists>p \<in> set ports.
            fst (connectAttempt w (WithTimeout ctx now 2200)
                   (if family = ''6'' then ''tcp6'' else ''tcp4'') ia p)))"
proof -
  let ?k = "Connect i a p"
  let ?ctx2 = "WithTimeout ctx now 2200"
  have p1: "fst (connectAttempt w ?ctx2 dialNet (i, a) p) \<longleftrightarrow>
      admit w ?k
      \<and> (\<exists>d. fate_of w ?k = Established d
             \<and> d < 1200
             \<and> dial_at w ?k + d < now + 2200
             \<and> (\<forall>t. deadline ctx = Some t \<longrightarrow> dial_at w ?k + d < t)
             \<and> (\<forall>c. cancelled ctx = Some c \<longrightarrow> dial_at w ?k + d < c))"
    by (simp only: connectAttempt_fst DialContext_None_iff stage_budget_iff)
  have p2: "fst (connectAttempt w ?ctx2 dialNet (i, a) p) \<longrightarrow>
         snd (connectAttempt w ?ctx2 dialNet (i, a) p)
           = [Acquired TCP, Dial dialNet a p None, Close, Released TCP]"
    by (simp add: connectAttempt_def split: option.splits)
  have p3: "\<forall>e. admit w ?k
            \<and> DialContext 1200 ?ctx2 (dial_at w ?k) (fate_of w ?k) = Some e \<longrightarrow>
         connectAttempt w ?ctx2 dialNet (i, a) p
           = (False, [Acquired TCP, Dial dialNet a p (Some e), Released TCP])"
    by (simp add: connectAttempt_def)
  have p4: "\<not> admit w ?k \<longrightarrow> connectAttempt w ?ctx2 dialNet (i, a) p = (False, [Refused TCP])"
    by (simp add: connectAttempt_def)
  have p5: "dialLimit 1200 ?ctx2 t0 \<le> t0 + 1200"
    by (rule dialLimit_le)
  have p6: "dialLimit 1200 ?ctx2 t0 \<le> now + 2200"
    by (rule dialLimit_stage)
  have p7: "\<forall>t. deadline ctx = Some t \<longrightarrow> dialLimit 1200 ?ctx2 t0 \<le> t"
    by (auto simp: dialLimit_def doneAt_def WithTimeout_def split: option.splits)
  have p8: "\<forall>c. cancelled ctx = Some c \<longrightarrow> dialLimit 1200 ?ctx2 t0 \<le> c"
    by (auto simp: dialLimit_def doneAt_def WithTimeout_def split: option.splits)
  show ?thesis
    using p1 p2 p3 p4 p5 p6 p7 p8 tcpConnectRace_fst [of w ctx now ips family ports]
    by (intro conjI) assumption+
qed

theorem tcp_attempt_within_budget_witness:
  "fst (connectAttempt tcp_only_world (WithTimeout \<lparr> deadline = Some 5000, cancelled = None \<rparr> 0 2200) ''tcp4''
          (0, [192, 0, 2, 1]) ''443'')
   \<and> snd (connectAttempt tcp_only_world (WithTimeout \<lparr> deadline = Some 5000, cancelled = None \<rparr> 0 2200) ''tcp4''
            (0, [192, 0, 2, 1]) ''443'')
       = [Acquired TCP, Dial ''tcp4'' [192, 0, 2, 1] ''443'' None, Close, Released TCP]
   \<and> connectAttempt tcp_only_world (WithTimeout \<lparr> deadline = Some 5000, cancelled = None \<rparr> 0 2200) ''tcp4''
        (0, [192, 0, 2, 1]) ''80''
       = (False, [Acquired TCP, Dial ''tcp4'' [192, 0, 2, 1] ''80'' (Some ConnectionRefused),
                  Released TCP])
   \<and> connectAttempt (tcp_only_world \<lparr> admit := (\<lambda>k. False) \<rparr>)
        (WithTimeout \<lparr> deadline = Some 5000, cancelled = None \<rparr> 0 2200) ''tcp4'' (0, [192, 0, 2, 1]) ''443''
       = (False, [Refused TCP])
   \<and> connectAttempt tcp_only_world
        (WithTimeout \<lparr> deadline = Some 5000, cancelled = Some 40 \<rparr> 0 2200) ''tcp4''
        (0, [192, 0, 2, 1]) ''443''
       = (False, [Acquired TCP, Dial ''tcp4'' [192, 0, 2, 1] ''443'' (Some Canceled), Released TCP])
   \<and> fst (tcpConnectRace tcp_only_world \<lparr> deadline = Some 5000, cancelled = None \<rparr> 0
            [[192, 0, 2, 1]] ''4'' [''443'', ''80''])"
proof -
  let ?ctx = "\<lparr> deadline = Some 5000, cancelled = None \<rparr>"
  let ?a = "[192, 0, 2, 1] :: ip"
  note t = tcp_attempt_within_budget [of tcp_only_world ?ctx 0 "''tcp4''" 0 ?a]
  have pre: "admit tcp_only_world (Connect 0 ?a ''443'')
      \<and> (\<exists>d. fate_of tcp_only_world (Connect 0 ?a ''443'') = Established d
             \<and> d < 1200
             \<and> dial_at tcp_only_world (Connect 0 ?a ''443'') + d < 0 + 2200
             \<and> (\<forall>t. deadline ?ctx = Some t \<longrightarrow> dial_at tcp_only_world (Connect 0 ?a ''443'') + d < t)
             \<and> (\<forall>c. cancelled ?ctx = Some c \<longrightarrow> dial_at tcp_only_world (Connect 0 ?a ''443'') + d < c))"
    by (simp add: tcp_only_world_def)
  have c1: "fst (connectAttempt tcp_only_world (WithTimeout ?ctx 0 2200) ''tcp4'' (0, ?a) ''443'')"
    using t [of "''443''", THEN conjunct1] pre by blast
  have c2: "snd (connectAttempt tcp_only_world (WithTimeout ?ctx 0 2200) ''tcp4'' (0, ?a) ''443'')
       = [Acquired TCP, Dial ''tcp4'' ?a ''443'' None, Close, Released TCP]"
    using t [of "''443''", THEN conjunct2, THEN conjunct1] c1 by blast
  have refused: "admit tcp_only_world (Connect 0 ?a ''80'')
      \<and> DialContext 1200 (WithTimeout ?ctx 0 2200) (dial_at tcp_only_world (Connect 0 ?a ''80''))
           (fate_of tcp_only_world (Connect 0 ?a ''80'')) = Some ConnectionRefused"
    by (simp add: tcp_only_world_def DialContext_def dialLimit_def doneAt_def WithTimeout_def)
  have c3: "connectAttempt tcp_only_world (WithTimeout ?ctx 0 2200) ''tcp4'' (0, ?a) ''80''
       = (False, [Acquired TCP, Dial ''tcp4'' ?a ''80'' (Some ConnectionRefused), Released TCP])"
    using t [of "''80''", THEN conjunct2, THEN conjunct2, THEN conjunct1] refused by blast
  have full: "\<not> admit (tcp_only_world \<lparr> admit := (\<lambda>k. False) \<rparr>) (Connect 0 ?a ''443'')"
    by simp
  have c4: "connectAttempt (tcp_only_world \<lparr> admit := (\<lambda>k. False) \<rparr>) (WithTimeout ?ctx 0 2200)
        ''tcp4'' (0, ?a) ''443'' = (False, [Refused TCP])"
    using tcp_attempt_within_budget
        [of "tcp_only_world \<lparr> admit := (\<lambda>k. False) \<rparr>" ?ctx 0 "''tcp4''" 0 ?a "''443''",
         THEN conjunct2, THEN conjunct2, THEN conjunct2, THEN conjunct1] full
    by blast
  let ?cc = "\<lparr> deadline = Some 5000, cancelled = Some 40 \<rparr>"
  have cancelled: "admit tcp_only_world (Connect 0 ?a ''443'')
      \<and> DialContext 1200 (WithTimeout ?cc 0 2200) (dial_at tcp_only_world (Connect 0 ?a ''443''))
           (fate_of tcp_only_world (Connect 0 ?a ''443'')) = Some Canceled"
    by (simp add: tcp_only_world_def DialContext_def dialLimit_def dialGivenUp_def doneAt_def
        WithTimeout_def)
  have c6: "connectAttempt tcp_only_world (WithTimeout ?cc 0 2200) ''tcp4'' (0, ?a) ''443''
       = (False, [Acquired TCP, Dial ''tcp4'' ?a ''443'' (Some Canceled), Released TCP])"
    using tcp_attempt_within_budget
        [of tcp_only_world ?cc 0 "''tcp4''" 0 ?a "''443''",
         THEN conjunct2, THEN conjunct2, THEN conjunct1] cancelled
    by blast
  have "\<exists>ia \<in> set (enumerate 0 [?a]). \<exists>p \<in> set [''443'', ''80''].
      fst (connectAttempt tcp_only_world (WithTimeout ?ctx 0 2200)
             (if ''4'' = ''6'' then ''tcp6'' else ''tcp4'') ia p)"
    using c1 by simp
  then have c5: "fst (tcpConnectRace tcp_only_world ?ctx 0 [?a] ''4'' [''443'', ''80''])"
    using tcp_attempt_within_budget
        [of tcp_only_world ?ctx 0 _ _ _ _ _ "[?a]" "''4''" "[''443'', ''80'']",
         THEN conjunct2, THEN conjunct2, THEN conjunct2, THEN conjunct2, THEN conjunct2,
         THEN conjunct2, THEN conjunct2, THEN conjunct2]
    by blast
  show ?thesis using c1 c2 c3 c4 c5 c6 by simp
qed

section \<open>The orchestrator, stage by stage\<close>

lemma echoAttempt_succeeded:
  "fst (echoAttempt w ctx2 ia) \<longleftrightarrow> list_ex succeeded (snd (echoAttempt w ctx2 ia))"
  by (cases ia) (auto simp: echoAttempt_def split: option.splits)

lemma connectAttempt_succeeded:
  "fst (connectAttempt w ctx2 dialNet ia p)
     \<longleftrightarrow> list_ex succeeded (snd (connectAttempt w ctx2 dialNet ia p))"
  by (cases ia) (auto simp: connectAttempt_def split: option.splits)

lemma echoAttempt_fst:
  "fst (echoAttempt w ctx2 (i, a)) \<longleftrightarrow>
     admit w (Echo i a) \<and> doICMP (socket w ctx2 (Echo i a)) ctx2 a = Some True"
  by (auto simp: echoAttempt_def split: option.splits)

lemma raceEcho_fst:
  "fst (raceEcho w ctx now ips) \<longleftrightarrow>
     list_ex (echoInTime w (WithTimeout ctx now 2200)) (enumerate 0 ips)"
  by (auto simp: raceEcho_def Let_def selectDone_def list_ex_iff echoInTime_def echoAttempt_fst)

lemma connectAttempt_in_time_iff:
  "fst (connectAttempt w ctx2 dialNet ia p) \<longleftrightarrow> connectInTime w ctx2 ia p"
  by (cases ia)
     (auto simp: connectAttempt_fst DialContext_None_iff dialLimit_iff connectInTime_def
        split: dial_fate.splits)

lemma tcpConnectRace_in_time:
  "fst (tcpConnectRace w ctx now ips family ports) \<longleftrightarrow>
     list_ex (\<lambda>ia. list_ex (connectInTime w (WithTimeout ctx now 2200) ia) ports) (enumerate 0 ips)"
  by (simp add: tcpConnectRace_fst connectAttempt_in_time_iff list_ex_iff)

lemma pingWithFamily_fst:
  "fst (pingWithFamily w ctx host family) \<longleftrightarrow> pingInTime w ctx host family"
  by (simp add: pingWithFamily_def pingInTime_def Let_def)

lemma raceEcho_succeeded:
  "fst (raceEcho w ctx now ips) \<Longrightarrow> list_ex succeeded (concat (snd (raceEcho w ctx now ips)))"
proof -
  assume "fst (raceEcho w ctx now ips)"
  then obtain ia where ia: "ia \<in> set (enumerate 0 ips)"
    and f: "fst (echoAttempt w (WithTimeout ctx now 2200) ia)"
    by (cases "\<exists>ia \<in> set (enumerate 0 ips). fst (echoAttempt w (WithTimeout ctx now 2200) ia)")
       (auto simp: raceEcho_def Let_def selectDone_def list_ex_iff)
  from f have "list_ex succeeded (snd (echoAttempt w (WithTimeout ctx now 2200) ia))"
    by (simp add: echoAttempt_succeeded)
  with ia show ?thesis
    by (auto simp: raceEcho_def Let_def list_ex_iff)
qed

lemma tcpConnectRace_succeeded:
  "fst (tcpConnectRace w ctx now ips family ports)
     \<longleftrightarrow> list_ex succeeded (concat (snd (tcpConnectRace w ctx now ips family ports)))"
proof -
  have "list_ex succeeded (concat (snd (tcpConnectRace w ctx now ips family ports))) \<longleftrightarrow>
      (\<exists>ia \<in> set (enumerate 0 ips). \<exists>p \<in> set ports.
         list_ex succeeded
           (snd (connectAttempt w (WithTimeout ctx now 2200)
                   (if family = ''6'' then ''tcp6'' else ''tcp4'') ia p)))"
    by (auto simp: tcpConnectRace_def Let_def list_ex_iff)
  then show ?thesis
    by (simp add: tcpConnectRace_fst connectAttempt_succeeded)
qed

lemma pingWithFamily_succeeded:
  "fst (pingWithFamily w ctx host family)
     \<longleftrightarrow> list_ex succeeded (snd (pingWithFamily w ctx host family))"
  by (simp add: pingWithFamily_def Let_def)

lemma familyGoroutine_cases:
  "familyGoroutine w ctx input family ips ports =
     (let e = raceEcho w ctx (stage_at w EchoStage family) ips;
          c = tcpConnectRace w ctx (stage_at w ConnectStage family) ips family ports;
          p = pingWithFamily w ctx input family
      in if fst e then (True, [Stage EchoStage (snd e) True])
         else if fst c then (True, [Stage EchoStage (snd e) False, Stage ConnectStage (snd c) True])
         else (fst p, [Stage EchoStage (snd e) False, Stage ConnectStage (snd c) False,
                       Stage PingStage [snd p] (fst p)]))"
  by (simp add: familyGoroutine_def Let_def split: prod.splits)

lemma familyGoroutine_succeeded:
  "fst (familyGoroutine w ctx input family ips ports)
     \<Longrightarrow> probe_succeeded (snd (familyGoroutine w ctx input family ips ports))"
  using raceEcho_succeeded [of w ctx "stage_at w EchoStage family" ips]
    tcpConnectRace_succeeded [of w ctx "stage_at w ConnectStage family" ips family ports]
    pingWithFamily_succeeded [of w ctx input family]
  by (auto simp: familyGoroutine_cases Let_def probe_succeeded_def stage_actions_def
      split: if_splits)



lemma literalGoroutine_cases:
  assumes "deadline ctx \<noteq> None"
  shows "\<exists>b. doICMP (socket w ctx (Echo 0 parsed)) ctx parsed = Some b
     \<and> literalGoroutine w ctx parsed input family =
         Some (if b then (True, [Stage EchoStage [[EchoProbe parsed (Some True)]] True])
               else (fst (pingWithFamily w ctx input family),
                     [Stage EchoStage [[EchoProbe parsed (Some False)]] False,
                      Stage PingStage [snd (pingWithFamily w ctx input family)]
                        (fst (pingWithFamily w ctx input family))]))"
proof -
  from doICMP_returns [OF assms] obtain b where
    b: "doICMP (socket w ctx (Echo 0 parsed)) ctx parsed = Some b" by blast
  then show ?thesis
    by (simp add: literalGoroutine_def split: prod.splits)
qed

lemma literalGoroutine_stages:
  "deadline ctx \<noteq> None \<Longrightarrow>
     literalGoroutine w ctx parsed input family = Some (literalStages w ctx parsed input family)"
  using literalGoroutine_cases [of ctx w parsed input family]
  by (auto simp: literalStages_def)

lemma literalStages_succeeded:
  "fst (literalStages w ctx parsed input family)
     \<longleftrightarrow> probe_succeeded (snd (literalStages w ctx parsed input family))"
  using pingWithFamily_succeeded [of w ctx input family]
  by (simp add: literalStages_def probe_succeeded_def stage_actions_def)

lemma okno_ok: "okno b = ''ok'' \<longleftrightarrow> b"
  by (simp add: okno_def)

lemma okno_values: "okno b = ''ok'' \<or> okno b = ''no''"
  by (simp add: okno_def)

lemma detectAndPing_literal:
  assumes "ParseIP w input = Some parsed"
  shows "detectAndPing w parent now input =
     (let ctx = WithTimeout parent now 5000 in
      if To4 parsed \<noteq> None then
        Some (\<lparr> IPv4 = okno (fst (literalStages w ctx parsed input ''4'')), IPv6 = ''no'' \<rparr>,
              \<lparr> resolver = [], v4_stages = snd (literalStages w ctx parsed input ''4''),
                v6_stages = [] \<rparr>)
      else
        Some (\<lparr> IPv4 = ''no'', IPv6 = okno (fst (literalStages w ctx parsed input ''6'')) \<rparr>,
              \<lparr> resolver = [], v4_stages = [],
                v6_stages = snd (literalStages w ctx parsed input ''6'') \<rparr>))"
  using assms
  by (simp add: detectAndPing_def Let_def literalGoroutine_stages WithTimeout_deadline
      split: prod.splits)

lemma detectAndPing_domain:
  assumes "ParseIP w input = None"
  shows "detectAndPing w parent now input =
     (let ctx = WithTimeout parent now 5000 in
      Some (\<lparr> IPv4 = okno (fst (domainStages w ctx input ''4'')),
               IPv6 = okno (fst (domainStages w ctx input ''6'')) \<rparr>,
            \<lparr> resolver = [snd (lookupGoroutine w ''ip4'' input),
                           snd (lookupGoroutine w ''ip6'' input)],
              v4_stages = snd (domainStages w ctx input ''4''),
              v6_stages = snd (domainStages w ctx input ''6'') \<rparr>))"
  using assms
  by (simp add: detectAndPing_def Let_def domainStages_def split: prod.splits)

lemma domainStages_succeeded:
  "fst (domainStages w ctx input family) \<Longrightarrow> probe_succeeded (snd (domainStages w ctx input family))"
  using familyGoroutine_succeeded [of w ctx input family]
  by (simp add: domainStages_def Let_def split: if_splits)

lemma enumerate_snd: "ia \<in> set (enumerate n xs) \<Longrightarrow> snd ia \<in> set xs"
  by (cases ia) (auto simp: in_set_enumerate_eq)

lemma echoAttempt_targets:
  "x \<in> set (snd (echoAttempt w ctx2 ia)) \<Longrightarrow> set (targets x) \<subseteq> {snd ia}"
  by (cases ia) (auto simp: echoAttempt_def split: if_splits option.splits)

lemma connectAttempt_targets:
  "x \<in> set (snd (connectAttempt w ctx2 dialNet ia p)) \<Longrightarrow> set (targets x) \<subseteq> {snd ia}"
  by (cases ia) (auto simp: connectAttempt_def split: if_splits option.splits)

lemma raceEcho_targets:
  "list_all (\<lambda>x. set (targets x) \<subseteq> set ips) (concat (snd (raceEcho w ctx now ips)))"
proof -
  have "set (targets x) \<subseteq> set ips"
    if "ia \<in> set (enumerate 0 ips)" "x \<in> set (snd (echoAttempt w ctx2 ia))" for ia x ctx2
    using echoAttempt_targets [OF that(2)] enumerate_snd [OF that(1)] by auto
  then show ?thesis
    by (auto simp: raceEcho_def Let_def list_all_iff)
qed

lemma tcpConnectRace_targets:
  "list_all (\<lambda>x. set (targets x) \<subseteq> set ips)
     (concat (snd (tcpConnectRace w ctx now ips family ports)))"
proof -
  have "set (targets x) \<subseteq> set ips"
    if "ia \<in> set (enumerate 0 ips)" "x \<in> set (snd (connectAttempt w ctx2 dialNet ia p))"
    for ia x ctx2 dialNet p
    using connectAttempt_targets [OF that(2)] enumerate_snd [OF that(1)] by auto
  then show ?thesis
    by (auto simp: tcpConnectRace_def Let_def list_all_iff)
qed

lemma pingWithFamily_targets:
  "list_all (\<lambda>x. set (targets x) \<subseteq> A) (snd (pingWithFamily w ctx host family))"
  by (simp add: pingWithFamily_def Let_def)

lemma familyGoroutine_targets:
  "list_all (\<lambda>x. set (targets x) \<subseteq> set ips)
     (concat (map stage_actions (snd (familyGoroutine w ctx input family ips ports))))"
  using raceEcho_targets [where ips = ips and w = w and ctx = ctx]
    tcpConnectRace_targets [where ips = ips and w = w and ctx = ctx]
    pingWithFamily_targets [where A = "set ips" and w = w]
  by (simp add: familyGoroutine_cases Let_def stage_actions_def)

lemma literalStages_targets:
  "list_all (\<lambda>x. set (targets x) \<subseteq> {parsed})
     (concat (map stage_actions (snd (literalStages w ctx parsed input family))))"
  using pingWithFamily_targets [where A = "{parsed}" and w = w]
  by (simp add: literalStages_def stage_actions_def)

lemma domainStages_targets:
  "list_all (\<lambda>x. set (targets x)
                \<subseteq> set (fst (lookupGoroutine w (if family = ''4'' then ''ip4'' else ''ip6'') input)))
     (concat (map stage_actions (snd (domainStages w ctx input family))))"
  using familyGoroutine_targets by (simp add: domainStages_def Let_def)

lemma domainStages_empty:
  "fst (lookupGoroutine w (if family = ''4'' then ''ip4'' else ''ip6'') input) = [] \<Longrightarrow>
     domainStages w ctx input family = (False, [])"
  by (simp add: domainStages_def)

lemma literalStages_fst:
  "fst (literalStages w ctx parsed input family)
     \<longleftrightarrow> doICMP (socket w ctx (Echo 0 parsed)) ctx parsed = Some True
         \<or> fst (pingWithFamily w ctx input family)"
  by (simp add: literalStages_def)

lemma familyGoroutine_fst:
  "fst (familyGoroutine w ctx input family ips ports) \<longleftrightarrow>
     fst (raceEcho w ctx (stage_at w EchoStage family) ips)
     \<or> fst (tcpConnectRace w ctx (stage_at w ConnectStage family) ips family ports)
     \<or> fst (pingWithFamily w ctx input family)"
  by (simp add: familyGoroutine_cases Let_def)

lemma domainStages_fst:
  "fst (domainStages w ctx input family) \<longleftrightarrow>
     fst (lookupGoroutine w (if family = ''4'' then ''ip4'' else ''ip6'') input) \<noteq> []
     \<and> fst (familyGoroutine w ctx input family
              (fst (lookupGoroutine w (if family = ''4'' then ''ip4'' else ''ip6'') input))
              [''443'', ''80''])"
  by (simp add: domainStages_def Let_def)

section \<open>Requests on the example hosts\<close>

lemmas world_eval =
  tcp_only_world_def quiet_net_def detectAndPing_def literalGoroutine_def lookupGoroutine_def
  familyGoroutine_def raceEcho_def echoAttempt_def tcpConnectRace_def connectAttempt_def
  pingWithFamily_def pingCommand_def pingEnd_def doICMP_def DialContext_def dialLimit_def
  dialGivenUp_def WithTimeout_def expired_def doneAt_def isDone_def socket_def stamp_def
  readAt_def probeEnd_def selectDone_def connectedAt_def To4_def okno_def Let_def

lemma example_literal_run:
  "detectAndPing tcp_only_world \<lparr> deadline = None, cancelled = None \<rparr> 0 ''192.0.2.1'' =
     Some (\<lparr> IPv4 = ''no'', IPv6 = ''no'' \<rparr>,
           \<lparr> resolver = [],
             v4_stages =
               [Stage EchoStage [[EchoProbe [192, 0, 2, 1] (Some False)]] False,
                Stage PingStage
                  [[Exec [''ping'', ''-4'', ''-c'', ''1'', ''-W'', ''1'', ''192.0.2.1''] False]] False],
             v6_stages = [] \<rparr>)"
  by (simp add: world_eval)


lemma example_unresolved_run:
  "detectAndPing tcp_only_world \<lparr> deadline = None, cancelled = None \<rparr> 0 ''nowhere.invalid'' =
     Some (\<lparr> IPv4 = ''no'', IPv6 = ''no'' \<rparr>,
           \<lparr> resolver =
               [[Acquired DNS, Lookup ''ip4'' ''nowhere.invalid'', Released DNS],
                [Acquired DNS, Lookup ''ip6'' ''nowhere.invalid'', Released DNS]],
             v4_stages = [], v6_stages = [] \<rparr>)"
  by (simp add: world_eval)

lemmas world_eval2 = world_eval ping_only_world_def echo_only_world_def getProto_def
  ParseMessage_def ipv4_ICMPTypeEchoReply_def ipv6_ICMPTypeEchoReply_def

lemma example_ping_only_run:
  "detectAndPing ping_only_world \<lparr> deadline = None, cancelled = None \<rparr> 0 ''example.com'' =
     Some (\<lparr> IPv4 = ''ok'', IPv6 = ''no'' \<rparr>,
           \<lparr> resolver =
               [[Acquired DNS, Lookup ''ip4'' ''example.com'', Released DNS],
                [Acquired DNS, Lookup ''ip6'' ''example.com'', Released DNS]],
             v4_stages =
               [Stage EchoStage
                  [[Acquired ICMP, EchoProbe [192, 0, 2, 1] (Some False), Released ICMP]] False,
                Stage ConnectStage
                  [[Acquired TCP, Dial ''tcp4'' [192, 0, 2, 1] ''443'' (Some ConnectionRefused),
                    Released TCP],
                   [Acquired TCP, Dial ''tcp4'' [192, 0, 2, 1] ''80'' (Some ConnectionRefused),
                    Released TCP]] False,
                Stage PingStage
                  [[Exec [''ping'', ''-4'', ''-c'', ''1'', ''-W'', ''1'', ''example.com''] True]]
                  True],
             v6_stages = [] \<rparr>)"
  by (simp add: world_eval2)

lemma example_late_reply_run:
  "detectAndPing echo_only_world \<lparr> deadline = None, cancelled = Some 20 \<rparr> 0 ''example.com'' =
     Some (\<lparr> IPv4 = ''no'', IPv6 = ''no'' \<rparr>,
           \<lparr> resolver =
               [[Acquired DNS, Lookup ''ip4'' ''example.com'', Released DNS],
                [Acquired DNS, Lookup ''ip6'' ''example.com'', Released DNS]],
             v4_stages =
               [Stage EchoStage
                  [[Acquired ICMP, EchoProbe [192, 0, 2, 1] (Some True), Released ICMP]] False,
                Stage ConnectStage
                  [[Acquired TCP, Dial ''tcp4'' [192, 0, 2, 1] ''443'' (Some Canceled),
                    Released TCP],
                   [Acquired TCP, Dial ''tcp4'' [192, 0, 2, 1] ''80'' (Some Canceled),
                    Released TCP]] False,
                Stage PingStage
                  [[Exec [''ping'', ''-4'', ''-c'', ''1'', ''-W'', ''1'', ''example.com''] False]]
                  False],
             v6_stages = [] \<rparr>)"
  by (simp add: world_eval2)

lemma example_timely_reply_run:
  "detectAndPing echo_only_world \<lparr> deadline = None, cancelled = Some 31 \<rparr> 0 ''example.com'' =
     Some (\<lparr> IPv4 = ''ok'', IPv6 = ''no'' \<rparr>,
           \<lparr> resolver =
               [[Acquired DNS, Lookup ''ip4'' ''example.com'', Released DNS],
                [Acquired DNS, Lookup ''ip6'' ''example.com'', Released DNS]],
             v4_stages =
               [Stage EchoStage
                  [[Acquired ICMP, EchoProbe [192, 0, 2, 1] (Some True), Released ICMP]] True],
             v6_stages = [] \<rparr>)"
  by (simp add: world_eval2)

lemma example_expired_run:
  "detectAndPing tcp_only_world \<lparr> deadline = Some 0, cancelled = None \<rparr> 0 ''example.com'' =
     Some (\<lparr> IPv4 = ''no'', IPv6 = ''no'' \<rparr>,
           \<lparr> resolver =
               [[Acquired DNS, Lookup ''ip4'' ''example.com'', Released DNS],
                [Acquired DNS, Lookup ''ip6'' ''example.com'', Released DNS]],
             v4_stages =
               [Stage EchoStage
                  [[Acquired ICMP, EchoProbe [192, 0, 2, 1] (Some False), Released ICMP]] False,
                Stage ConnectStage
                  [[Acquired TCP, Dial ''tcp4'' [192, 0, 2, 1] ''443'' (Some IOTimeout),
                    Released TCP],
                   [Acquired TCP, Dial ''tcp4'' [192, 0, 2, 1] ''80'' (Some IOTimeout),
                    Released TCP]] False,
                Stage PingStage
                  [[Exec [''ping'', ''-4'', ''-c'', ''1'', ''-W'', ''1'', ''example.com''] False]]
                  False],
             v6_stages =
               [Stage EchoStage
                  [[Acquired ICMP,
                    EchoProbe [32, 1, 13, 184, 0, 0, 0, 0, 0, 0, 0, 0, 0, 0, 0, 1] (Some False),
                    Released ICMP]] False,
                Stage ConnectStage
                  [[Acquired TCP,
                    Dial ''tcp6'' [32, 1, 13, 184, 0, 0, 0, 0, 0, 0, 0, 0, 0, 0, 0, 1] ''443''
                      (Some IOTimeout),
                    Released TCP],
                   [Acquired TCP,
                    Dial ''tcp6'' [32, 1, 13, 184, 0, 0, 0, 0, 0, 0, 0, 0, 0, 0, 0, 1] ''80''
                      (Some IOTimeout),
                    Released TCP]] False,
                Stage PingStage
                  [[Exec [''ping'', ''-6'', ''-c'', ''1'', ''-W'', ''1'', ''example.com''] False]]
                  False] \<rparr>)"
  by (simp add: world_eval)
section \<open>The result of a request\<close>

lemma detectAndPing_stages:
  "detectAndPing w parent now input =
     Some (\<lparr> IPv4 = okno (fst (familyStages w (WithTimeout parent now 5000) input ''4'')),
              IPv6 = okno (fst (familyStages w (WithTimeout parent now 5000) input ''6'')) \<rparr>,
           \<lparr> resolver = (case ParseIP w input of
                           Some parsed \<Rightarrow> []
                         | None \<Rightarrow> [snd (lookupGoroutine w ''ip4'' input),
                                    snd (lookupGoroutine w ''ip6'' input)]),
             v4_stages = snd (familyStages w (WithTimeout parent now 5000) input ''4''),
             v6_stages = snd (familyStages w (WithTimeout parent now 5000) input ''6'') \<rparr>)"
proof (cases "ParseIP w input")
  case None
  then show ?thesis
    using detectAndPing_domain [OF None, of parent now] by (simp add: Let_def familyStages_def)
next
  case (Some parsed)
  then show ?thesis
    using detectAndPing_literal [OF Some, of parent now]
    by (cases "To4 parsed \<noteq> None") (simp_all add: Let_def familyStages_def okno_def)
qed

lemma familyStages_targets:
  "list_all (\<lambda>x. set (targets x) \<subseteq> set (candidates w input family))
     (concat (map stage_actions (snd (familyStages w ctx input family))))"
proof (cases "ParseIP w input")
  case None
  then show ?thesis
    using domainStages_targets [where family = family and w = w and input = input and ctx = ctx]
    by (simp add: familyStages_def candidates_def)
next
  case (Some parsed)
  then show ?thesis
    using literalStages_targets [where family = family and w = w and input = input
        and ctx = ctx and parsed = parsed]
    by (simp add: familyStages_def candidates_def)
qed

lemma familyStages_empty:
  "candidates w input family = [] \<Longrightarrow> familyStages w ctx input family = (False, [])"
  using domainStages_empty [where family = family and w = w and input = input and ctx = ctx]
  by (auto simp: familyStages_def candidates_def split: option.splits if_splits)

lemma familyStages_succeeded:
  "fst (familyStages w ctx input family) \<Longrightarrow> probe_succeeded (snd (familyStages w ctx input family))"
  using domainStages_succeeded [of w ctx input family] literalStages_succeeded [of w ctx _ input family]
  by (auto simp: familyStages_def split: option.splits if_splits)

lemma list_ex_at2:
  "(\<exists>t. list_ex (\<lambda>(i, a). P (i, a) \<and> t = g i a) xs) \<longleftrightarrow> list_ex P xs"
  by (auto simp: list_ex_iff)

lemma list_ex_at3:
  "(\<exists>t. list_ex (\<lambda>(i, a). list_ex (\<lambda>p. P (i, a) p \<and> t = g i a p) ps) xs)
     \<longleftrightarrow> list_ex (\<lambda>ia. list_ex (P ia) ps) xs"
  by (auto simp: list_ex_iff)

lemma reachedAt_domain:
  assumes "ParseIP w input = None"
  shows "fst (domainStages w ctx input family) \<longleftrightarrow> (\<exists>t. reachedAt w ctx input family t)"
proof -
  let ?ips = "candidates w input family"
  have c: "fst (lookupGoroutine w (if family = ''4'' then ''ip4'' else ''ip6'') input) = ?ips"
    using assms by (simp add: candidates_def)
  have "(\<exists>t. reachedAt w ctx input family t) \<longleftrightarrow>
      ?ips \<noteq> []
      \<and> ((\<exists>t. list_ex (\<lambda>(i, a).
                        echoInTime w (WithTimeout ctx (stage_at w EchoStage family) 2200) (i, a)
                        \<and> t = probeEnd w (WithTimeout ctx (stage_at w EchoStage family) 2200)
                                (Echo i a) a) (enumerate 0 ?ips))
          \<or> (\<exists>t. list_ex (\<lambda>(i, a).
                            list_ex (\<lambda>p.
                                connectInTime w
                                  (WithTimeout ctx (stage_at w ConnectStage family) 2200) (i, a) p
                                \<and> t = connectedAt w (Connect i a p))
                              [''443'', ''80'']) (enumerate 0 ?ips))
          \<or> pingInTime w ctx input family)"
    using assms by (simp add: reachedAt_def) blast
  also have "\<dots> \<longleftrightarrow> ?ips \<noteq> []
      \<and> (list_ex (echoInTime w (WithTimeout ctx (stage_at w EchoStage family) 2200)) (enumerate 0 ?ips)
          \<or> list_ex (\<lambda>ia. list_ex (connectInTime w
                 (WithTimeout ctx (stage_at w ConnectStage family) 2200) ia) [''443'', ''80''])
               (enumerate 0 ?ips)
          \<or> pingInTime w ctx input family)"
    using list_ex_at2
        [of "echoInTime w (WithTimeout ctx (stage_at w EchoStage family) 2200)"
          "\<lambda>i a. probeEnd w (WithTimeout ctx (stage_at w EchoStage family) 2200) (Echo i a) a"
          "enumerate 0 ?ips"]
      list_ex_at3
        [of "connectInTime w (WithTimeout ctx (stage_at w ConnectStage family) 2200)"
          "\<lambda>i a p. connectedAt w (Connect i a p)" "[''443'', ''80'']" "enumerate 0 ?ips"]
    by (simp only:)
  also have "\<dots> \<longleftrightarrow> fst (domainStages w ctx input family)"
    by (simp only: domainStages_fst familyGoroutine_fst raceEcho_fst tcpConnectRace_in_time
        pingWithFamily_fst c)
  finally show ?thesis by simp
qed

lemma reachedAt_literal:
  assumes "ParseIP w input = Some parsed"
  shows "(\<exists>t. reachedAt w ctx input family t) \<longleftrightarrow>
     (To4 parsed \<noteq> None) = (family = ''4'') \<and> fst (literalStages w ctx parsed input family)"
  using assms by (auto simp: reachedAt_def literalStages_fst pingWithFamily_fst)

lemma familyStages_reached:
  "fst (familyStages w ctx input family) \<longleftrightarrow> (\<exists>t. reachedAt w ctx input family t)"
proof (cases "ParseIP w input")
  case None
  then show ?thesis using reachedAt_domain [OF None] by (simp add: familyStages_def)
next
  case (Some parsed)
  then show ?thesis using reachedAt_literal [OF Some] by (simp add: familyStages_def)
qed

lemma not_expired_request:
  "\<not> expired (WithTimeout parent now 5000) t \<Longrightarrow>
     t < now + 5000 \<and> (\<forall>d. deadline parent = Some d \<longrightarrow> t < d)"
  by (simp only: expired_WithTimeout) (auto simp: expired_def)

lemma not_isDone:
  "\<not> isDone ctx t \<Longrightarrow> \<not> expired ctx t \<and> (\<forall>c. cancelled ctx = Some c \<longrightarrow> t < c)"
  by (auto simp: isDone_iff)

lemma not_isDone_request:
  "\<not> isDone (WithTimeout parent now 5000) t \<Longrightarrow>
     t < now + 5000 \<and> (\<forall>d. deadline parent = Some d \<longrightarrow> t < d)
     \<and> (\<forall>c. cancelled parent = Some c \<longrightarrow> t < c)"
  using not_isDone [of "WithTimeout parent now 5000" t] not_expired_request [of parent now t]
  by (auto simp: WithTimeout_def)

lemma doneAt_request:
  "doneAt (WithTimeout (WithTimeout parent now 5000) s 2200) = Some t \<Longrightarrow>
     t \<le> now + 5000 \<and> (\<forall>d. deadline parent = Some d \<longrightarrow> t \<le> d)
     \<and> (\<forall>c. cancelled parent = Some c \<longrightarrow> t \<le> c)"
  by (auto simp: doneAt_def WithTimeout_def split: option.splits)

lemma echoInTime_bound:
  assumes "echoInTime w (WithTimeout (WithTimeout parent now 5000) s 2200) (i, a)"
  shows "probeEnd w (WithTimeout (WithTimeout parent now 5000) s 2200) (Echo i a) a \<le> now + 5000
     \<and> (\<forall>d. deadline parent = Some d \<longrightarrow>
            probeEnd w (WithTimeout (WithTimeout parent now 5000) s 2200) (Echo i a) a \<le> d)
     \<and> (\<forall>c. cancelled parent = Some c \<longrightarrow>
            probeEnd w (WithTimeout (WithTimeout parent now 5000) s 2200) (Echo i a) a \<le> c)"
proof -
  let ?ctx = "WithTimeout parent now 5000"
  let ?t = "probeEnd w (WithTimeout ?ctx s 2200) (Echo i a) a"
  from assms have "\<not> isDone (WithTimeout ?ctx s 2200) ?t \<or> doneAt (WithTimeout ?ctx s 2200) = Some ?t"
    by (auto simp: echoInTime_def)
  then show ?thesis
  proof
    assume "\<not> isDone (WithTimeout ?ctx s 2200) ?t"
    then have "\<not> isDone ?ctx ?t" by (simp add: isDone_WithTimeout)
    from not_isDone_request [OF this] show ?thesis by (simp add: less_imp_le)
  next
    assume "doneAt (WithTimeout ?ctx s 2200) = Some ?t"
    from doneAt_request [OF this] show ?thesis .
  qed
qed

lemma connectInTime_bound:
  assumes "connectInTime w (WithTimeout (WithTimeout parent now 5000) s 2200) (i, a) p"
  shows "connectedAt w (Connect i a p) < now + 5000
     \<and> (\<forall>d. deadline parent = Some d \<longrightarrow> connectedAt w (Connect i a p) < d)
     \<and> (\<forall>c. cancelled parent = Some c \<longrightarrow> connectedAt w (Connect i a p) < c)"
proof -
  let ?ctx = "WithTimeout parent now 5000"
  from assms have "\<not> isDone (WithTimeout ?ctx s 2200) (connectedAt w (Connect i a p))"
    by (auto simp: connectInTime_def connectedAt_def split: dial_fate.splits)
  then have "\<not> isDone ?ctx (connectedAt w (Connect i a p))" by (simp add: isDone_WithTimeout)
  from not_isDone_request [OF this] show ?thesis .
qed

lemma pingInTime_bound:
  assumes "pingInTime w (WithTimeout parent now 5000) host family"
  shows "pingEnd w host family < now + 5000
     \<and> (\<forall>d. deadline parent = Some d \<longrightarrow> pingEnd w host family < d)
     \<and> (\<forall>c. cancelled parent = Some c \<longrightarrow> pingEnd w host family < c)"
  using assms not_isDone_request [of parent now "pingEnd w host family"]
  by (simp add: pingInTime_def)

lemma reachedAt_bound:
  assumes "reachedAt w (WithTimeout parent now 5000) input family t"
  shows "t \<le> now + 5000 \<and> (\<forall>d. deadline parent = Some d \<longrightarrow> t \<le> d)
     \<and> (ParseIP w input = None \<longrightarrow> (\<forall>c. cancelled parent = Some c \<longrightarrow> t \<le> c))"
proof (cases "ParseIP w input")
  case (Some parsed)
  let ?ctx = "WithTimeout parent now 5000"
  from assms Some consider
    (echo) "doICMP (socket w ?ctx (Echo 0 parsed)) ?ctx parsed = Some True"
      "t = probeEnd w ?ctx (Echo 0 parsed) parsed"
    | (ping) "pingInTime w ?ctx input family" "t = pingEnd w input family"
    by (auto simp: reachedAt_def)
  then show ?thesis
  proof cases
    case echo
    from not_expired_request [OF doICMP_socket_true(1) [OF echo(1)]] echo(2) Some
    show ?thesis by (simp add: less_imp_le)
  next
    case ping
    from pingInTime_bound [OF ping(1)] ping(2) Some show ?thesis by (simp add: less_imp_le)
  qed
next
  case None
  let ?ctx = "WithTimeout parent now 5000"
  from assms None consider
    (echo) i a where "echoInTime w (WithTimeout ?ctx (stage_at w EchoStage family) 2200) (i, a)"
      "t = probeEnd w (WithTimeout ?ctx (stage_at w EchoStage family) 2200) (Echo i a) a"
    | (conn) i a p where
      "connectInTime w (WithTimeout ?ctx (stage_at w ConnectStage family) 2200) (i, a) p"
      "t = connectedAt w (Connect i a p)"
    | (ping) "pingInTime w ?ctx input family" "t = pingEnd w input family"
    by (auto simp: reachedAt_def list_ex_iff)
  then show ?thesis
  proof cases
    case echo
    from echoInTime_bound [OF echo(1)] echo(2) show ?thesis by simp
  next
    case conn
    from connectInTime_bound [OF conn(1)] conn(2) show ?thesis by (simp add: less_imp_le)
  next
    case ping
    from pingInTime_bound [OF ping(1)] ping(2) show ?thesis by (simp add: less_imp_le)
  qed
qed

lemma echoInTime_budget:
  assumes "echoInTime w (WithTimeout c s 2200) (i, a)"
  shows "probeEnd w (WithTimeout c s 2200) (Echo i a) a \<le> s + 2200"
proof -
  let ?t = "probeEnd w (WithTimeout c s 2200) (Echo i a) a"
  from assms have "\<not> isDone (WithTimeout c s 2200) ?t \<or> doneAt (WithTimeout c s 2200) = Some ?t"
    by (auto simp: echoInTime_def)
  then show ?thesis
    using doneAt_WithTimeout [of c s 2200] by (auto simp: isDone_WithTimeout)
qed

lemma connectInTime_budget:
  assumes "connectInTime w (WithTimeout c s 2200) (i, a) p"
  shows "connectedAt w (Connect i a p) < s + 2200
     \<and> connectedAt w (Connect i a p) < dial_at w (Connect i a p) + 1200"
  using assms
  by (auto simp: connectInTime_def connectedAt_def isDone_WithTimeout split: dial_fate.splits)

lemma not_reachedAt_done:
  assumes clock: "\<forall>k. now \<le> probe_at w k \<and> now \<le> dial_at w k"
    "\<forall>family. now \<le> stage_at w PingStage family"
    and dn: "isDone ctx now"
  shows "\<not> reachedAt w ctx input family t"
proof
  assume r: "reachedAt w ctx input family t"
  have echo: "doICMP (socket w c k) c a \<noteq> Some True" if "isDone c now" for c k a
  proof
    assume "doICMP (socket w c k) c a = Some True"
    from doICMP_socket_true(2) [OF this] isDone_mono [OF that] clock(1) show False by blast
  qed
  have ping: "\<not> pingInTime w ctx input family"
    using isDone_mono [OF dn, of "pingEnd w input family"] clock(2)
    by (auto simp: pingInTime_def pingEnd_def intro: trans_le_add1)
  have stage: "isDone (WithTimeout ctx s 2200) now" for s
    using dn by (simp add: isDone_WithTimeout)
  have conn: "\<not> connectInTime w (WithTimeout ctx s 2200) (i, a) p" for s i a p
  proof
    assume "connectInTime w (WithTimeout ctx s 2200) (i, a) p"
    then obtain d where "\<not> isDone (WithTimeout ctx s 2200) (dial_at w (Connect i a p) + d)"
      by (auto simp: connectInTime_def split: dial_fate.splits)
    with isDone_mono [OF stage [of s], of "dial_at w (Connect i a p) + d"] clock(1)
    show False by (auto intro: trans_le_add1)
  qed
  from r show False
    using echo [OF dn] echo [OF stage] ping conn
    by (auto simp: reachedAt_def echoInTime_def list_ex_iff split: option.splits)
qed

text \<open>
  Claim C1, as amended. \<open>detectAndPing\<close> always returns a result, never an error,
  and each field is \<open>ok\<close> or \<open>no\<close>. A field is \<open>ok\<close> exactly when its family is
  reached at some moment: by an echo probe of a candidate address, by a connection to
  a candidate address on port 443 or 80, or by the system ping, which is given the
  input string and not a candidate address. That moment is within the overall
  deadline, at most 5000 ms after the request started and not after the deadline of
  the caller's context, and for a domain not after the caller cancelled the request:
  an echo reply that comes after the cancellation does not count. An echo attempt or
  a connection of a race counts only within 2200 ms of the start of its stage, a
  connection only within 1200 ms of the start of its dial. A field that is
  \<open>ok\<close> has a probe that succeeded in the trace; every echo probe and every dial of
  a family is aimed at one of the family's candidate addresses; a family with no
  candidate address runs no stage and its field is \<open>no\<close>. When the clock never
  reads less than at the start of the request, a request whose context is done as it
  starts has both fields \<open>no\<close>.
\<close>

theorem detectAndPing_ok_iff_reached:
  "(\<exists>res tr. detectAndPing w parent now input = Some (res, tr)
     \<and> (IPv4 res = ''ok'' \<or> IPv4 res = ''no'')
     \<and> (IPv6 res = ''ok'' \<or> IPv6 res = ''no'')
     \<and> (IPv4 res = ''ok'' \<longleftrightarrow> (\<exists>t. reachedAt w (WithTimeout parent now 5000) input ''4'' t))
     \<and> (IPv6 res = ''ok'' \<longleftrightarrow> (\<exists>t. reachedAt w (WithTimeout parent now 5000) input ''6'' t))
     \<and> (\<forall>family t. reachedAt w (WithTimeout parent now 5000) input family t \<longrightarrow>
           t \<le> now + 5000 \<and> (\<forall>d. deadline parent = Some d \<longrightarrow> t \<le> d)
           \<and> (ParseIP w input = None \<longrightarrow> (\<forall>c. cancelled parent = Some c \<longrightarrow> t \<le> c)))
     \<and> (IPv4 res = ''ok'' \<longrightarrow> probe_succeeded (v4_stages tr))
     \<and> (IPv6 res = ''ok'' \<longrightarrow> probe_succeeded (v6_stages tr))
     \<and> list_all (\<lambda>x. set (targets x) \<subseteq> set (candidates w input ''4''))
          (concat (map stage_actions (v4_stages tr)))
     \<and> list_all (\<lambda>x. set (targets x) \<subseteq> set (candidates w input ''6''))
          (concat (map stage_actions (v6_stages tr)))
     \<and> (candidates w input ''4'' = [] \<longrightarrow> IPv4 res = ''no'' \<and> v4_stages tr = [])
     \<and> (candidates w input ''6'' = [] \<longrightarrow> IPv6 res = ''no'' \<and> v6_stages tr = [])
     \<and> ((\<forall>k. now \<le> probe_at w k \<and> now \<le> dial_at w k)
          \<and> (\<forall>family. now \<le> stage_at w PingStage family)
          \<and> isDone (WithTimeout parent now 5000) now \<longrightarrow>
            IPv4 res = ''no'' \<and> IPv6 res = ''no''))
   \<and> (echoInTime w (WithTimeout c s 2200) (i, a) \<longrightarrow>
         probeEnd w (WithTimeout c s 2200) (Echo i a) a \<le> s + 2200)
   \<and> (connectInTime w (WithTimeout c s 2200) (i, a) p \<longrightarrow>
         connectedAt w (Connect i a p) < s + 2200
         \<and> connectedAt w (Connect i a p) < dial_at w (Connect i a p) + 1200)"
proof -
  let ?ctx = "WithTimeout parent now 5000"
  let ?s4 = "familyStages w ?ctx input ''4''"
  let ?s6 = "familyStages w ?ctx input ''6''"
  let ?res = "\<lparr> IPv4 = okno (fst ?s4), IPv6 = okno (fst ?s6) \<rparr>"
  let ?tr = "\<lparr> resolver = (case ParseIP w input of
                              Some parsed \<Rightarrow> []
                            | None \<Rightarrow> [snd (lookupGoroutine w ''ip4'' input),
                                       snd (lookupGoroutine w ''ip6'' input)]),
                v4_stages = snd ?s4, v6_stages = snd ?s6 \<rparr>"
  have r: "detectAndPing w parent now input = Some (?res, ?tr)"
    by (rule detectAndPing_stages)
  have v: "(IPv4 ?res = ''ok'' \<or> IPv4 ?res = ''no'')" "(IPv6 ?res = ''ok'' \<or> IPv6 ?res = ''no'')"
    using okno_values by simp_all
  have o4: "IPv4 ?res = ''ok'' \<longleftrightarrow> (\<exists>t. reachedAt w ?ctx input ''4'' t)"
    by (simp add: okno_ok familyStages_reached)
  have o6: "IPv6 ?res = ''ok'' \<longleftrightarrow> (\<exists>t. reachedAt w ?ctx input ''6'' t)"
    by (simp add: okno_ok familyStages_reached)
  have b: "\<forall>family t. reachedAt w ?ctx input family t \<longrightarrow>
           t \<le> now + 5000 \<and> (\<forall>d. deadline parent = Some d \<longrightarrow> t \<le> d)
           \<and> (ParseIP w input = None \<longrightarrow> (\<forall>c. cancelled parent = Some c \<longrightarrow> t \<le> c))"
    using reachedAt_bound by blast
  have p4: "IPv4 ?res = ''ok'' \<longrightarrow> probe_succeeded (v4_stages ?tr)"
    by (simp add: okno_ok familyStages_succeeded)
  have p6: "IPv6 ?res = ''ok'' \<longrightarrow> probe_succeeded (v6_stages ?tr)"
    by (simp add: okno_ok familyStages_succeeded)
  have t4: "list_all (\<lambda>x. set (targets x) \<subseteq> set (candidates w input ''4''))
          (concat (map stage_actions (v4_stages ?tr)))"
    using familyStages_targets [of w input "''4''" ?ctx] by simp
  have t6: "list_all (\<lambda>x. set (targets x) \<subseteq> set (candidates w input ''6''))
          (concat (map stage_actions (v6_stages ?tr)))"
    using familyStages_targets [of w input "''6''" ?ctx] by simp
  have e4: "candidates w input ''4'' = [] \<longrightarrow> IPv4 ?res = ''no'' \<and> v4_stages ?tr = []"
    by (simp add: familyStages_empty okno_def)
  have e6: "candidates w input ''6'' = [] \<longrightarrow> IPv6 ?res = ''no'' \<and> v6_stages ?tr = []"
    by (simp add: familyStages_empty okno_def)
  have d: "(\<forall>k. now \<le> probe_at w k \<and> now \<le> dial_at w k)
          \<and> (\<forall>family. now \<le> stage_at w PingStage family)
          \<and> isDone ?ctx now \<longrightarrow>
            IPv4 ?res = ''no'' \<and> IPv6 ?res = ''no''"
  proof (intro impI, elim conjE)
    assume c: "\<forall>k. now \<le> probe_at w k \<and> now \<le> dial_at w k"
      "\<forall>family. now \<le> stage_at w PingStage family" "isDone ?ctx now"
    from not_reachedAt_done [OF c] have "\<not> fst ?s4" "\<not> fst ?s6"
      by (simp_all add: familyStages_reached)
    then show "IPv4 ?res = ''no'' \<and> IPv6 ?res = ''no''" by (simp add: okno_def)
  qed
  have eb: "echoInTime w (WithTimeout c s 2200) (i, a) \<longrightarrow>
           probeEnd w (WithTimeout c s 2200) (Echo i a) a \<le> s + 2200"
    using echoInTime_budget by blast
  have cb: "connectInTime w (WithTimeout c s 2200) (i, a) p \<longrightarrow>
           connectedAt w (Connect i a p) < s + 2200
           \<and> connectedAt w (Connect i a p) < dial_at w (Connect i a p) + 1200"
    using connectInTime_budget by blast
  show ?thesis
    using r v o4 o6 b p4 p6 t4 t6 e4 e6 d eb cb
    by (intro exI [of _ ?res] exI [of _ ?tr] conjI) assumption+
qed

theorem detectAndPing_ok_iff_reached_witness:
  "(\<exists>res tr. detectAndPing tcp_only_world \<lparr> deadline = None, cancelled = None \<rparr> 0
                ''example.com'' = Some (res, tr)
       \<and> IPv4 res = ''ok''
       \<and> reachedAt tcp_only_world (WithTimeout \<lparr> deadline = None, cancelled = None \<rparr> 0 5000)
            ''example.com'' ''4'' 40
       \<and> probe_succeeded (v4_stages tr))
   \<and> (\<exists>res tr. detectAndPing echo_only_world \<lparr> deadline = None, cancelled = Some 20 \<rparr> 0
                  ''example.com'' = Some (res, tr)
       \<and> IPv4 res = ''no''
       \<and> \<not> reachedAt echo_only_world (WithTimeout \<lparr> deadline = None, cancelled = Some 20 \<rparr> 0 5000)
              ''example.com'' ''4'' 30)
   \<and> (\<exists>res tr. detectAndPing tcp_only_world \<lparr> deadline = Some 0, cancelled = None \<rparr> 0
                  ''example.com'' = Some (res, tr)
       \<and> IPv4 res = ''no'' \<and> IPv6 res = ''no'')
   \<and> (\<exists>res tr. detectAndPing tcp_only_world \<lparr> deadline = None, cancelled = None \<rparr> 0
                  ''nowhere.invalid'' = Some (res, tr)
       \<and> IPv4 res = ''no'' \<and> v4_stages tr = [] \<and> IPv6 res = ''no'' \<and> v6_stages tr = [])
   \<and> echoInTime echo_only_world (WithTimeout \<lparr> deadline = None, cancelled = None \<rparr> 0 2200)
        (0, [192, 0, 2, 1])
   \<and> probeEnd echo_only_world (WithTimeout \<lparr> deadline = None, cancelled = None \<rparr> 0 2200)
        (Echo 0 [192, 0, 2, 1]) [192, 0, 2, 1] \<le> 2200
   \<and> connectInTime tcp_only_world (WithTimeout \<lparr> deadline = None, cancelled = None \<rparr> 0 2200)
        (0, [192, 0, 2, 1]) ''443''
   \<and> connectedAt tcp_only_world (Connect 0 [192, 0, 2, 1] ''443'') < 2200"
proof -
  let ?w = tcp_only_world
  let ?a = "[192, 0, 2, 1] :: ip"
  let ?p = "\<lparr> deadline = None, cancelled = None \<rparr>"
  let ?c = "\<lparr> deadline = None, cancelled = Some 20 \<rparr>"
  let ?e = "\<lparr> deadline = Some 0, cancelled = None \<rparr>"
  have at: "reachedAt ?w (WithTimeout ?p 0 5000) ''example.com'' ''4'' 40"
    by (simp add: reachedAt_def candidates_def connectInTime_def echoInTime_def pingInTime_def
        world_eval)
  obtain res tr where r: "detectAndPing ?w ?p 0 ''example.com'' = Some (res, tr)"
    and iff: "IPv4 res = ''ok'' \<longleftrightarrow> (\<exists>t. reachedAt ?w (WithTimeout ?p 0 5000) ''example.com'' ''4'' t)"
    and ps: "IPv4 res = ''ok'' \<longrightarrow> probe_succeeded (v4_stages tr)"
    using detectAndPing_ok_iff_reached [of ?w ?p 0 "''example.com''", THEN conjunct1] by blast
  from iff at have "IPv4 res = ''ok''" by blast
  with r at ps have c1: "\<exists>res tr. detectAndPing ?w ?p 0 ''example.com'' = Some (res, tr)
       \<and> IPv4 res = ''ok''
       \<and> reachedAt ?w (WithTimeout ?p 0 5000) ''example.com'' ''4'' 40
       \<and> probe_succeeded (v4_stages tr)"
    by blast
  have late: "\<not> reachedAt echo_only_world (WithTimeout ?c 0 5000) ''example.com'' ''4'' t" for t
    by (simp add: reachedAt_def candidates_def connectInTime_def echoInTime_def pingInTime_def
        world_eval2)
  obtain res2 tr2 where r2: "detectAndPing echo_only_world ?c 0 ''example.com'' = Some (res2, tr2)"
    and iff2: "IPv4 res2 = ''ok'' \<longleftrightarrow>
        (\<exists>t. reachedAt echo_only_world (WithTimeout ?c 0 5000) ''example.com'' ''4'' t)"
    and v2: "IPv4 res2 = ''ok'' \<or> IPv4 res2 = ''no''"
    using detectAndPing_ok_iff_reached [of echo_only_world ?c 0 "''example.com''", THEN conjunct1]
    by blast
  from iff2 late v2 have "IPv4 res2 = ''no''" by blast
  with r2 late have c2: "\<exists>res tr. detectAndPing echo_only_world ?c 0 ''example.com'' = Some (res, tr)
       \<and> IPv4 res = ''no''
       \<and> \<not> reachedAt echo_only_world (WithTimeout ?c 0 5000) ''example.com'' ''4'' 30"
    by blast
  have clock: "(\<forall>k. (0::nat) \<le> probe_at ?w k \<and> 0 \<le> dial_at ?w k)
      \<and> (\<forall>family. 0 \<le> stage_at ?w PingStage family)
      \<and> isDone (WithTimeout ?e 0 5000) 0"
    by (simp add: isDone_def doneAt_def WithTimeout_def)
  obtain res3 tr3 where r3: "detectAndPing ?w ?e 0 ''example.com'' = Some (res3, tr3)"
    and d3: "(\<forall>k. 0 \<le> probe_at ?w k \<and> 0 \<le> dial_at ?w k)
          \<and> (\<forall>family. 0 \<le> stage_at ?w PingStage family)
          \<and> isDone (WithTimeout ?e 0 5000) 0 \<longrightarrow>
            IPv4 res3 = ''no'' \<and> IPv6 res3 = ''no''"
    using detectAndPing_ok_iff_reached [of ?w ?e 0 "''example.com''", THEN conjunct1] by blast
  from r3 d3 clock have c3: "\<exists>res tr. detectAndPing ?w ?e 0 ''example.com'' = Some (res, tr)
       \<and> IPv4 res = ''no'' \<and> IPv6 res = ''no''"
    by blast
  have n4: "candidates ?w ''nowhere.invalid'' ''4'' = []"
    and n6: "candidates ?w ''nowhere.invalid'' ''6'' = []"
    by (simp_all add: candidates_def tcp_only_world_def lookupGoroutine_def)
  have c4: "\<exists>res tr. detectAndPing ?w ?p 0 ''nowhere.invalid'' = Some (res, tr)
       \<and> IPv4 res = ''no'' \<and> v4_stages tr = [] \<and> IPv6 res = ''no'' \<and> v6_stages tr = []"
    using detectAndPing_ok_iff_reached [of ?w ?p 0 "''nowhere.invalid''", THEN conjunct1] n4 n6
    by blast
  have e: "echoInTime echo_only_world (WithTimeout ?p 0 2200) (0, ?a)"
    by (simp add: echoInTime_def world_eval2)
  have c: "connectInTime ?w (WithTimeout ?p 0 2200) (0, ?a) ''443''"
    by (simp add: connectInTime_def world_eval)
  from detectAndPing_ok_iff_reached
      [where w = echo_only_world and c = ?p and s = 0 and i = 0 and a = ?a,
       THEN conjunct2, THEN conjunct1] e
  have c5: "probeEnd echo_only_world (WithTimeout ?p 0 2200) (Echo 0 ?a) ?a \<le> 2200"
    by simp
  from detectAndPing_ok_iff_reached
      [where w = ?w and c = ?p and s = 0 and i = 0 and a = ?a and p = "''443''",
       THEN conjunct2, THEN conjunct2] c
  have c6: "connectedAt ?w (Connect 0 ?a ''443'') < 2200"
    by simp
  from c1 c2 c3 c4 e c5 c c6 show ?thesis by blast
qed

text \<open>
  The claim as first stated fails. On a host where the one candidate address of
  \<open>example.com\<close> answers neither the echo probe nor a connection on port 443 or
  80, and the system's \<open>ping\<close> of the name succeeds, the field is \<open>ok\<close>
  although no probe against a candidate address succeeded: the one success is the
  command, which was given the name. (The request \<open>example_late_reply_run\<close> shows
  the other direction: an echo reply from the candidate address, read 30 ms into a
  request that was cancelled after 20 ms, within the overall deadline, leaves the
  field at \<open>no\<close>.)
\<close>

theorem ping_reaches_no_candidate:
  "candidates ping_only_world ''example.com'' ''4'' = [[192, 0, 2, 1]]
   \<and> detectAndPing ping_only_world \<lparr> deadline = None, cancelled = None \<rparr> 0 ''example.com'' =
     Some (\<lparr> IPv4 = ''ok'', IPv6 = ''no'' \<rparr>,
           \<lparr> resolver =
               [[Acquired DNS, Lookup ''ip4'' ''example.com'', Released DNS],
                [Acquired DNS, Lookup ''ip6'' ''example.com'', Released DNS]],
             v4_stages =
               [Stage EchoStage
                  [[Acquired ICMP, EchoProbe [192, 0, 2, 1] (Some False), Released ICMP]] False,
                Stage ConnectStage
                  [[Acquired TCP, Dial ''tcp4'' [192, 0, 2, 1] ''443'' (Some ConnectionRefused),
                    Released TCP],
                   [Acquired TCP, Dial ''tcp4'' [192, 0, 2, 1] ''80'' (Some ConnectionRefused),
                    Released TCP]] False,
                Stage PingStage
                  [[Exec [''ping'', ''-4'', ''-c'', ''1'', ''-W'', ''1'', ''example.com''] True]]
                  True],
             v6_stages = [] \<rparr>)"
  by (simp add: example_ping_only_run) (simp add: candidates_def ping_only_world_def lookupGoroutine_def)

section \<open>Escalation of the stages of a domain\<close>



section \<open>Literal addresses\<close>

lemma literalStages_kinds:
  "map kind (snd (literalStages w ctx parsed input family)) =
     (if doICMP (socket w ctx (Echo 0 parsed)) ctx parsed = Some True then [EchoStage]
      else [EchoStage, PingStage])"
  "map verdict (snd (literalStages w ctx parsed input family)) =
     (if doICMP (socket w ctx (Echo 0 parsed)) ctx parsed = Some True then [True]
      else [False, fst (pingWithFamily w ctx input family)])"
  by (simp_all add: literalStages_def)

lemma literalStages_no_connect:
  "list_all (\<lambda>st. kind st \<noteq> ConnectStage) (snd (literalStages w ctx parsed input family))"
  by (simp add: literalStages_def)

text \<open>
  Claim C2, as amended. For an input that parses as a literal address,
  \<open>detectAndPing\<close> runs stages for the family of the address only: one echo probe of
  that address and then, only when the probe returned false, the system ping of the
  input for that family. No connect stage runs. Every probe is aimed at the literal
  address. The family's field is \<open>ok\<close> exactly when the probe or the ping returned
  true, and the other family's field stays \<open>no\<close>.
\<close>

theorem literal_echo_then_ping:
  "ParseIP w input = Some parsed \<longrightarrow>
     (\<exists>res tr. detectAndPing w parent now input = Some (res, tr)
        \<and> list_all (\<lambda>st. kind st \<noteq> ConnectStage) (v4_stages tr @ v6_stages tr)
        \<and> list_all (\<lambda>x. set (targets x) \<subseteq> {parsed})
             (concat (map stage_actions (v4_stages tr @ v6_stages tr)))
        \<and> (To4 parsed \<noteq> None \<longrightarrow>
              IPv6 res = ''no'' \<and> v6_stages tr = []
              \<and> map kind (v4_stages tr) =
                  (if doICMP (socket w (WithTimeout parent now 5000) (Echo 0 parsed))
                        (WithTimeout parent now 5000) parsed
                        = Some True
                   then [EchoStage] else [EchoStage, PingStage])
              \<and> map verdict (v4_stages tr) =
                  (if doICMP (socket w (WithTimeout parent now 5000) (Echo 0 parsed))
                        (WithTimeout parent now 5000) parsed
                        = Some True
                   then [True]
                   else [False, fst (pingWithFamily w (WithTimeout parent now 5000) input ''4'')])
              \<and> (IPv4 res = ''ok'' \<longleftrightarrow>
                    doICMP (socket w (WithTimeout parent now 5000) (Echo 0 parsed))
                        (WithTimeout parent now 5000) parsed
                      = Some True
                    \<or> fst (pingWithFamily w (WithTimeout parent now 5000) input ''4'')))
        \<and> (To4 parsed = None \<longrightarrow>
              IPv4 res = ''no'' \<and> v4_stages tr = []
              \<and> map kind (v6_stages tr) =
                  (if doICMP (socket w (WithTimeout parent now 5000) (Echo 0 parsed))
                        (WithTimeout parent now 5000) parsed
                        = Some True
                   then [EchoStage] else [EchoStage, PingStage])
              \<and> map verdict (v6_stages tr) =
                  (if doICMP (socket w (WithTimeout parent now 5000) (Echo 0 parsed))
                        (WithTimeout parent now 5000) parsed
                        = Some True
                   then [True]
                   else [False, fst (pingWithFamily w (WithTimeout parent now 5000) input ''6'')])
              \<and> (IPv6 res = ''ok'' \<longleftrightarrow>
                    doICMP (socket w (WithTimeout parent now 5000) (Echo 0 parsed))
                        (WithTimeout parent now 5000) parsed
                      = Some True
                    \<or> fst (pingWithFamily w (WithTimeout parent now 5000) input ''6''))))"
proof
  assume p: "ParseIP w input = Some parsed"
  let ?ctx = "WithTimeout parent now 5000"
  let ?goal = "\<lambda>res tr. detectAndPing w parent now input = Some (res, tr)
        \<and> list_all (\<lambda>st. kind st \<noteq> ConnectStage) (v4_stages tr @ v6_stages tr)
        \<and> list_all (\<lambda>x. set (targets x) \<subseteq> {parsed})
             (concat (map stage_actions (v4_stages tr @ v6_stages tr)))
        \<and> (To4 parsed \<noteq> None \<longrightarrow>
              IPv6 res = ''no'' \<and> v6_stages tr = []
              \<and> map kind (v4_stages tr) =
                  (if doICMP (socket w ?ctx (Echo 0 parsed)) ?ctx parsed = Some True
                   then [EchoStage] else [EchoStage, PingStage])
              \<and> map verdict (v4_stages tr) =
                  (if doICMP (socket w ?ctx (Echo 0 parsed)) ?ctx parsed = Some True
                   then [True] else [False, fst (pingWithFamily w ?ctx input ''4'')])
              \<and> (IPv4 res = ''ok'' \<longleftrightarrow>
                    doICMP (socket w ?ctx (Echo 0 parsed)) ?ctx parsed = Some True
                    \<or> fst (pingWithFamily w ?ctx input ''4'')))
        \<and> (To4 parsed = None \<longrightarrow>
              IPv4 res = ''no'' \<and> v4_stages tr = []
              \<and> map kind (v6_stages tr) =
                  (if doICMP (socket w ?ctx (Echo 0 parsed)) ?ctx parsed = Some True
                   then [EchoStage] else [EchoStage, PingStage])
              \<and> map verdict (v6_stages tr) =
                  (if doICMP (socket w ?ctx (Echo 0 parsed)) ?ctx parsed = Some True
                   then [True] else [False, fst (pingWithFamily w ?ctx input ''6'')])
              \<and> (IPv6 res = ''ok'' \<longleftrightarrow>
                    doICMP (socket w ?ctx (Echo 0 parsed)) ?ctx parsed = Some True
                    \<or> fst (pingWithFamily w ?ctx input ''6'')))"
  show "\<exists>res tr. ?goal res tr"
  proof (cases "To4 parsed \<noteq> None")
    case True
    let ?res = "\<lparr> IPv4 = okno (fst (literalStages w ?ctx parsed input ''4'')), IPv6 = ''no'' \<rparr>"
    let ?tr = "\<lparr> resolver = [], v4_stages = snd (literalStages w ?ctx parsed input ''4''),
                  v6_stages = [] \<rparr>"
    have r: "detectAndPing w parent now input = Some (?res, ?tr)"
      using detectAndPing_literal [OF p, of parent now] True by (simp add: Let_def)
    show ?thesis
      by (rule exI [of _ ?res], rule exI [of _ ?tr])
         (use r True literalStages_no_connect [of w ?ctx parsed input "''4''"]
            literalStages_targets [where family = "''4''" and w = w and input = input
              and ctx = ?ctx and parsed = parsed]
           in \<open>simp add: okno_ok literalStages_fst literalStages_kinds del: not_None_eq\<close>)
  next
    case False
    let ?res = "\<lparr> IPv4 = ''no'', IPv6 = okno (fst (literalStages w ?ctx parsed input ''6'')) \<rparr>"
    let ?tr = "\<lparr> resolver = [], v4_stages = [],
                  v6_stages = snd (literalStages w ?ctx parsed input ''6'') \<rparr>"
    have r: "detectAndPing w parent now input = Some (?res, ?tr)"
      using detectAndPing_literal [OF p, of parent now] False by (simp add: Let_def)
    show ?thesis
      by (rule exI [of _ ?res], rule exI [of _ ?tr])
         (use r False literalStages_no_connect [of w ?ctx parsed input "''6''"]
            literalStages_targets [where family = "''6''" and w = w and input = input
              and ctx = ?ctx and parsed = parsed]
           in \<open>simp add: okno_ok literalStages_fst literalStages_kinds del: not_None_eq\<close>)
  qed
qed

theorem literal_echo_then_ping_witness:
  "\<exists>res tr. detectAndPing tcp_only_world \<lparr> deadline = None, cancelled = None \<rparr> 0 ''192.0.2.1'' = Some (res, tr)
     \<and> map kind (v4_stages tr) = [EchoStage, PingStage]
     \<and> map verdict (v4_stages tr) = [False, False]
     \<and> IPv4 res \<noteq> ''ok'' \<and> IPv6 res = ''no'' \<and> v6_stages tr = []"
proof -
  let ?w = tcp_only_world
  let ?a = "[192, 0, 2, 1] :: ip"
  let ?ctx = "WithTimeout \<lparr> deadline = None, cancelled = None \<rparr> 0 5000"
  have p: "ParseIP ?w ''192.0.2.1'' = Some ?a"
    by (simp add: tcp_only_world_def)
  have f: "To4 ?a \<noteq> None" by (simp add: To4_def)
  have e: "doICMP (socket ?w ?ctx (Echo 0 ?a)) ?ctx ?a \<noteq> Some True"
    by (simp add: tcp_only_world_def quiet_net_def doICMP_def socket_def To4_def)
  have g: "\<not> fst (pingWithFamily ?w ?ctx ''192.0.2.1'' ''4'')"
    by (simp add: tcp_only_world_def pingWithFamily_def pingCommand_def Let_def)
  obtain res tr where
    r: "detectAndPing ?w \<lparr> deadline = None, cancelled = None \<rparr> 0 ''192.0.2.1'' = Some (res, tr)"
    and v4: "To4 ?a \<noteq> None \<longrightarrow>
              IPv6 res = ''no'' \<and> v6_stages tr = []
              \<and> map kind (v4_stages tr) =
                  (if doICMP (socket ?w ?ctx (Echo 0 ?a)) ?ctx ?a = Some True
                   then [EchoStage] else [EchoStage, PingStage])
              \<and> map verdict (v4_stages tr) =
                  (if doICMP (socket ?w ?ctx (Echo 0 ?a)) ?ctx ?a = Some True
                   then [True] else [False, fst (pingWithFamily ?w ?ctx ''192.0.2.1'' ''4'')])
              \<and> (IPv4 res = ''ok'' \<longleftrightarrow>
                    doICMP (socket ?w ?ctx (Echo 0 ?a)) ?ctx ?a = Some True
                    \<or> fst (pingWithFamily ?w ?ctx ''192.0.2.1'' ''4''))"
    using literal_echo_then_ping [of ?w "''192.0.2.1''" ?a "\<lparr> deadline = None, cancelled = None \<rparr>" 0,
        rule_format, OF p]
    by blast
  from v4 f e g have "map kind (v4_stages tr) = [EchoStage, PingStage]
     \<and> map verdict (v4_stages tr) = [False, False]
     \<and> IPv4 res \<noteq> ''ok'' \<and> IPv6 res = ''no'' \<and> v6_stages tr = []"
    by auto
  with r show ?thesis by (intro exI [of _ res] exI [of _ tr]) simp
qed

text \<open>
  The claim as first stated fails. On the example host the full chain of stages, run
  on the one address, returns true through its connect stage; \<open>detectAndPing\<close>, given
  the same address as a literal, reports \<open>no\<close>, having run no connect stage.
\<close>

theorem literal_skips_connect_stage:
  "ParseIP tcp_only_world ''192.0.2.1'' = Some [192, 0, 2, 1]
   \<and> fst (familyGoroutine tcp_only_world (WithTimeout \<lparr> deadline = None, cancelled = None \<rparr> 0 5000) ''192.0.2.1''
            ''4'' [[192, 0, 2, 1]] [''443'', ''80''])
   \<and> detectAndPing tcp_only_world \<lparr> deadline = None, cancelled = None \<rparr> 0 ''192.0.2.1'' =
       Some (\<lparr> IPv4 = ''no'', IPv6 = ''no'' \<rparr>,
             \<lparr> resolver = [],
               v4_stages =
                 [Stage EchoStage [[EchoProbe [192, 0, 2, 1] (Some False)]] False,
                  Stage PingStage
                    [[Exec [''ping'', ''-4'', ''-c'', ''1'', ''-W'', ''1'', ''192.0.2.1''] False]]
                    False],
               v6_stages = [] \<rparr>)"
  by (simp add: example_literal_run) (simp add: world_eval)

section \<open>Echo probes and the ICMP gate\<close>

lemma echoAttempt_gated: "deadline ctx2 \<noteq> None \<Longrightarrow> gated_echo (snd (echoAttempt w ctx2 ia))"
proof -
  assume d: "deadline ctx2 \<noteq> None"
  obtain i a where ia: "ia = (i, a)" by (cases ia)
  from echoAttempt_cases [OF d, of w i a] show ?thesis
    unfolding ia by auto
qed

lemma connectAttempt_gated: "gated_echo (snd (connectAttempt w ctx2 dialNet ia p))"
proof -
  obtain i a where ia: "ia = (i, a)" by (cases ia)
  from connectAttempt_cases [of w ctx2 dialNet i a p] show ?thesis
    unfolding ia by auto
qed

lemma raceEcho_gated: "list_all gated_echo (snd (raceEcho w ctx now ips))"
  by (simp add: raceEcho_def Let_def list_all_iff echoAttempt_gated WithTimeout_deadline)

lemma tcpConnectRace_gated: "list_all gated_echo (snd (tcpConnectRace w ctx now ips family ports))"
  by (auto simp: tcpConnectRace_def Let_def list_all_iff connectAttempt_gated)

lemma pingWithFamily_gated: "gated_echo (snd (pingWithFamily w ctx host family))"
  by (simp add: pingWithFamily_def Let_def)

lemma familyGoroutine_gated:
  "list_all (\<lambda>st. list_all gated_echo (attempts st))
     (snd (familyGoroutine w ctx input family ips ports))"
  by (simp add: familyGoroutine_cases Let_def raceEcho_gated tcpConnectRace_gated
      pingWithFamily_gated)

lemma domainStages_gated:
  "list_all (\<lambda>st. list_all gated_echo (attempts st)) (snd (domainStages w ctx input family))"
  by (simp add: domainStages_def Let_def familyGoroutine_gated)

text \<open>
  For a domain, every echo probe of the request is made by a goroutine that has just
  acquired a slot of the ICMP gate. In \<open>raceEcho\<close> an attempt that is refused the slot
  probes nothing and sends nothing on \<open>done\<close>; an attempt that gets it probes and
  then releases it; and the stage returns true exactly when an attempt that got its
  slot had its probe return true and its value reached the \<open>select\<close> in time.
\<close>

lemma domain_echo_attempts_gated:
  "(ParseIP w input = None \<longrightarrow>
      (\<exists>res tr. detectAndPing w parent now input = Some (res, tr)
         \<and> list_all (\<lambda>st. list_all gated_echo (attempts st)) (v4_stages tr @ v6_stages tr)))
   \<and> list_all gated_echo (snd (raceEcho w ctx now ips))
   \<and> (\<forall>ia \<in> set (enumerate 0 ips).
         \<not> admit w (Echo (fst ia) (snd ia)) \<longrightarrow>
           echoAttempt w (WithTimeout ctx now 2200) ia = (False, [Refused ICMP]))
   \<and> (\<forall>ia \<in> set (enumerate 0 ips).
         admit w (Echo (fst ia) (snd ia)) \<longrightarrow>
           (\<exists>b. doICMP (socket w (WithTimeout ctx now 2200) (Echo (fst ia) (snd ia)))
                   (WithTimeout ctx now 2200) (snd ia)
                   = Some b
                \<and> echoAttempt w (WithTimeout ctx now 2200) ia
                   = (b, [Acquired ICMP, EchoProbe (snd ia) (Some b), Released ICMP])))
   \<and> (fst (raceEcho w ctx now ips) \<longleftrightarrow>
         list_ex (echoInTime w (WithTimeout ctx now 2200)) (enumerate 0 ips))"
proof -
  let ?ctx2 = "WithTimeout ctx now 2200"
  have main: "ParseIP w input = None \<longrightarrow>
      (\<exists>res tr. detectAndPing w parent now input = Some (res, tr)
         \<and> list_all (\<lambda>st. list_all gated_echo (attempts st)) (v4_stages tr @ v6_stages tr))"
  proof
    assume None: "ParseIP w input = None"
    show "\<exists>res tr. detectAndPing w parent now input = Some (res, tr)
         \<and> list_all (\<lambda>st. list_all gated_echo (attempts st)) (v4_stages tr @ v6_stages tr)"
      using detectAndPing_domain [OF None, of parent now]
      by (simp add: Let_def domainStages_gated)
  qed
  have refused: "\<forall>ia \<in> set (enumerate 0 ips).
         \<not> admit w (Echo (fst ia) (snd ia)) \<longrightarrow>
           echoAttempt w ?ctx2 ia = (False, [Refused ICMP])"
    by (auto simp: echoAttempt_def)
  have admitted: "\<forall>ia \<in> set (enumerate 0 ips).
         admit w (Echo (fst ia) (snd ia)) \<longrightarrow>
           (\<exists>b. doICMP (socket w ?ctx2 (Echo (fst ia) (snd ia))) ?ctx2 (snd ia) = Some b
                \<and> echoAttempt w ?ctx2 ia
                   = (b, [Acquired ICMP, EchoProbe (snd ia) (Some b), Released ICMP]))"
  proof (intro ballI impI)
    fix ia assume a: "admit w (Echo (fst ia) (snd ia))"
    have d: "deadline ?ctx2 \<noteq> None" by (rule WithTimeout_deadline)
    from echoAttempt_cases [OF d, of w "fst ia" "snd ia"] a
    show "\<exists>b. doICMP (socket w ?ctx2 (Echo (fst ia) (snd ia))) ?ctx2 (snd ia) = Some b
                \<and> echoAttempt w ?ctx2 ia
                   = (b, [Acquired ICMP, EchoProbe (snd ia) (Some b), Released ICMP])"
      by auto
  qed
  show ?thesis
    using main raceEcho_gated [of w ctx now ips] refused admitted raceEcho_fst [of w ctx now ips]
    by (intro conjI) assumption+
qed

text \<open>
  Claim C3. Every echo probe of a request, for a domain and for a literal address
  alike, is to be made under a slot of the ICMP gate, and an attempt that gets no slot
  counts as a failed probe. \<open>raceEcho\<close> does this; the branch of \<open>detectAndPing\<close>
  for a literal address does not. At a moment when no gate has room, the request for
  a literal address still makes its echo probe, and the goroutine of that probe never
  asks the ICMP gate for a slot.
\<close>

theorem literal_echo_not_gated:
  "detectAndPing full_gates_world \<lparr> deadline = None, cancelled = None \<rparr> 0 ''192.0.2.1'' =
     Some (\<lparr> IPv4 = ''no'', IPv6 = ''no'' \<rparr>,
           \<lparr> resolver = [],
             v4_stages =
               [Stage EchoStage [[EchoProbe [192, 0, 2, 1] (Some False)]] False,
                Stage PingStage
                  [[Exec [''ping'', ''-4'', ''-c'', ''1'', ''-W'', ''1'', ''192.0.2.1''] False]]
                  False],
             v6_stages = [] \<rparr>)
   \<and> \<not> gated_echo [EchoProbe [192, 0, 2, 1] (Some False)]
   \<and> \<not> admit full_gates_world (Echo 0 [192, 0, 2, 1])"
  by (simp add: full_gates_world_def world_eval)

section \<open>Literal addresses and the DNS gate\<close>

text \<open>
  Claim C10. For an input that parses as a literal address, \<open>detectAndPing\<close> starts
  no resolver goroutine, and no action of the whole request acquires, is refused or
  releases a slot of the DNS gate, or looks a name up.
\<close>

theorem literal_leaves_dns_alone:
  "ParseIP w input = Some parsed \<longrightarrow>
     (\<exists>res tr. detectAndPing w parent now input = Some (res, tr)
        \<and> resolver tr = []
        \<and> list_all (\<lambda>x. \<not> uses_dns x) (trace_actions tr))"
proof
  assume p: "ParseIP w input = Some parsed"
  let ?ctx = "WithTimeout parent now 5000"
  have quiet: "list_all (\<lambda>x. \<not> uses_dns x)
      (concat (map stage_actions (snd (literalStages w ?ctx parsed input family))))" for family
    by (simp add: literalStages_def stage_actions_def pingWithFamily_def Let_def)
  show "\<exists>res tr. detectAndPing w parent now input = Some (res, tr)
        \<and> resolver tr = []
        \<and> list_all (\<lambda>x. \<not> uses_dns x) (trace_actions tr)"
    using detectAndPing_literal [OF p, of parent now] quiet [of "''4''"] quiet [of "''6''"]
    by (cases "To4 parsed \<noteq> None") (simp_all add: Let_def trace_actions_def del: not_None_eq)
qed

theorem literal_leaves_dns_alone_witness:
  "\<exists>res tr. detectAndPing tcp_only_world \<lparr> deadline = None, cancelled = None \<rparr> 0 ''2001:db8::1'' = Some (res, tr)
     \<and> resolver tr = []
     \<and> list_all (\<lambda>x. \<not> uses_dns x) (trace_actions tr)"
proof -
  have p: "ParseIP tcp_only_world ''2001:db8::1''
      = Some [32, 1, 13, 184, 0, 0, 0, 0, 0, 0, 0, 0, 0, 0, 0, 1]"
    by (simp add: tcp_only_world_def)
  show ?thesis
    using literal_leaves_dns_alone [of tcp_only_world "''2001:db8::1''" _ "\<lparr> deadline = None, cancelled = None \<rparr>" 0,
        rule_format, OF p] .
qed

end
